theory Spec2Isabelle
  imports Main "HOL-Library.Word" "HOL-Library.Signed_Division" "HOL-Library.Monad_Syntax"
    "HOL-Library.AList"
begin

unbundle bit_operations_syntax

chapter \<open>A shallow embedding of the tracedb storage engine\<close>

section \<open>Machine integers, errors and byte slices\<close>

text \<open>
  Go's fixed-width integers are words. A signed type (\<open>int32\<close>, \<open>int64\<close>) is the word of the
  same width, read through \<open>sint\<close> wherever the source compares or divides; the conversions
  \<open>uint64(x)\<close> and \<open>int64(x)\<close> between equal widths keep the bits and are therefore the
  identity on the word.
\<close>

type_synonym u8 = "8 word"
type_synonym u16 = "16 word"
type_synonym u32 = "32 word"
type_synonym u64 = "64 word"
type_synonym i32 = "32 word"
type_synonym i64 = "64 word"

text \<open>
  The errors the modelled code can produce. \<open>GoPanic\<close> stands for a run-time panic (an index
  or a slice bound out of range), \<open>EOF\<close> for \<open>io.EOF\<close>, \<open>ErrIO\<close> for any other error of a
  file or of the arena, \<open>ErrEntryDeleted\<close> for \<open>errors.New("entry deleted")\<close>.
\<close>

datatype error = ErrEntryDeleted | ErrIO | EOF | GoPanic

text \<open>\<open>s[lo:hi]\<close> on a byte slice whose capacity is its length; \<open>None\<close> is the panic.\<close>

definition slice :: "'a list \<Rightarrow> nat \<Rightarrow> nat \<Rightarrow> 'a list option" where
  "slice s lo hi = (if lo \<le> hi \<and> hi \<le> length s then Some (take (hi - lo) (drop lo s)) else None)"

text \<open>\<open>copy(buf[off:off+len(p)], p)\<close> for a range that lies inside \<open>buf\<close>.\<close>

definition put_at :: "'a list \<Rightarrow> nat \<Rightarrow> 'a list \<Rightarrow> 'a list" where
  "put_at buf off p = take off buf @ p @ drop (off + length p) buf"

subsection \<open>\<open>encoding/binary\<close>, little endian\<close>

definition PutUint16 :: "u16 \<Rightarrow> u8 list" where
  "PutUint16 v = [ucast v, ucast (drop_bit 8 v)]"

definition PutUint32 :: "u32 \<Rightarrow> u8 list" where
  "PutUint32 v = [ucast v, ucast (drop_bit 8 v), ucast (drop_bit 16 v), ucast (drop_bit 24 v)]"

definition PutUint64 :: "u64 \<Rightarrow> u8 list" where
  "PutUint64 v = [ucast v, ucast (drop_bit 8 v), ucast (drop_bit 16 v), ucast (drop_bit 24 v),
     ucast (drop_bit 32 v), ucast (drop_bit 40 v), ucast (drop_bit 48 v), ucast (drop_bit 56 v)]"

text \<open>The readers panic (\<open>None\<close>) on a slice that is too short, as the library's bounds check does.\<close>

fun Uint16 :: "u8 list \<Rightarrow> u16 option" where
  "Uint16 (b0 # b1 # _) = Some (ucast b0 OR push_bit 8 (ucast b1))"
| "Uint16 _ = None"

fun Uint32 :: "u8 list \<Rightarrow> u32 option" where
  "Uint32 (b0 # b1 # b2 # b3 # _) =
     Some (ucast b0 OR push_bit 8 (ucast b1) OR push_bit 16 (ucast b2) OR push_bit 24 (ucast b3))"
| "Uint32 _ = None"

fun Uint64 :: "u8 list \<Rightarrow> u64 option" where
  "Uint64 (b0 # b1 # b2 # b3 # b4 # b5 # b6 # b7 # _) =
     Some (ucast b0 OR push_bit 8 (ucast b1) OR push_bit 16 (ucast b2) OR push_bit 24 (ucast b3)
       OR push_bit 32 (ucast b4) OR push_bit 40 (ucast b5) OR push_bit 48 (ucast b6)
       OR push_bit 56 (ucast b7))"
| "Uint64 _ = None"

section \<open>memdb: the sharded block cache (\<open>memdb/memdb.go\<close>)\<close>

definition nShards :: nat where
  "nShards = 32"

text \<open>
  Modelled from the spec: the \<open>dataTable\<close> of a shard is not among the sources. Section 4.2
  describes it as an append-only arena supporting \<open>allocate(size) \<rightarrow> offset\<close>,
  \<open>writeAt(bytes, offset)\<close> and \<open>readRaw(offset, len)\<close>, whose errors propagate. The arena is
  its byte buffer; \<open>allocate\<close> extends it by \<open>size\<close> bytes and returns the offset of the new
  region, \<open>writeAt\<close> overwrites bytes inside the arena, \<open>readRaw\<close> returns the bytes of a
  range inside the arena, and a range that leaves the arena is an error. Offsets are \<open>int64\<close>
  in the source; an arena in memory stays far below \<open>2 ^ 63\<close> bytes, so they are integers here.
\<close>

record dataTable =
  buf :: "u8 list"

definition dataTable_size :: "dataTable \<Rightarrow> int" where
  "dataTable_size t = int (length (buf t))"

definition allocate :: "dataTable \<Rightarrow> u32 \<Rightarrow> error + (int \<times> dataTable)" where
  "allocate t sz = Inr (dataTable_size t, t\<lparr>buf := buf t @ replicate (unat sz) 0\<rparr>)"

definition writeAt :: "dataTable \<Rightarrow> u8 list \<Rightarrow> int \<Rightarrow> error + dataTable" where
  "writeAt t p off =
     (if 0 \<le> off \<and> off + int (length p) \<le> dataTable_size t
      then Inr (t\<lparr>buf := put_at (buf t) (nat off) p\<rparr>)
      else Inl ErrIO)"

definition readRaw :: "dataTable \<Rightarrow> int \<Rightarrow> u32 \<Rightarrow> error + u8 list" where
  "readRaw t off sz =
     (if 0 \<le> off \<and> off + int (unat sz) \<le> dataTable_size t
      then Inr (take (unat sz) (drop (nat off) (buf t)))
      else Inl ErrIO)"

text \<open>
  \<open>memCache\<close>: one shard, with its arena and its map from key to offset. The consistent-hash
  ring \<open>hash.Consistent\<close> is outside the sources; the DB carries its \<open>FindBlock\<close> as a
  function from block id to shard index.
\<close>

record memCache =
  data :: dataTable
  freeOffset :: int
  m :: "u64 \<rightharpoonup> int"

record DB =
  consistent :: "u64 \<Rightarrow> nat"
  blockCache :: "memCache list"

definition newBlockCache :: "memCache list" where
  "newBlockCache = replicate nShards \<lparr>data = \<lparr>buf = []\<rparr>, freeOffset = 0, m = Map.empty\<rparr>"

text \<open>\<open>db.blockCache[db.consistent.FindBlock(blockID)]\<close>; an index out of range panics.\<close>

definition getCache :: "DB \<Rightarrow> u64 \<Rightarrow> memCache option" where
  "getCache db blockID =
     (let i = consistent db blockID
      in if i < length (blockCache db) then Some (blockCache db ! i) else None)"

text \<open>The shard is reached through a pointer; writing it back is the update of the list.\<close>

definition setCache :: "DB \<Rightarrow> u64 \<Rightarrow> memCache \<Rightarrow> DB" where
  "setCache db blockID cache = db\<lparr>blockCache := (blockCache db)[consistent db blockID := cache]\<rparr>"

text \<open>
  \<open>DB.Get\<close>. The result \<open>Inr None\<close> is the pair \<open>(nil, nil)\<close>. A missing key reads as offset
  \<open>0\<close> with \<open>ok = false\<close>, so the tombstone test comes first and does not fire for it.
\<close>

definition cache_Get :: "memCache \<Rightarrow> u64 \<Rightarrow> error + u8 list option" where
  "cache_Get cache key =
     (let (off, ok) = (case m cache key of None \<Rightarrow> (0, False) | Some o' \<Rightarrow> (o', True))
      in if off = -1 then Inl ErrEntryDeleted
         else if \<not> ok then Inr None
         else case readRaw (data cache) off 4 of
             Inl err \<Rightarrow> Inl err
           | Inr scratch \<Rightarrow>
              (case Uint32 scratch of
                 None \<Rightarrow> Inl GoPanic
               | Some dataLen \<Rightarrow>
                  (case readRaw (data cache) off dataLen of
                     Inl err \<Rightarrow> Inl err
                   | Inr d \<Rightarrow> (case slice d 4 (length d) of
                                 None \<Rightarrow> Inl GoPanic
                               | Some r \<Rightarrow> Inr (Some r)))))"

definition DB_Get :: "DB \<Rightarrow> u64 \<Rightarrow> u64 \<Rightarrow> error + u8 list option" where
  "DB_Get db blockID key =
     (case getCache db blockID of None \<Rightarrow> Inl GoPanic | Some cache \<Rightarrow> cache_Get cache key)"

text \<open>\<open>DB.Remove\<close>: the offset of a key that is present becomes \<open>-1\<close>; the result is always nil.\<close>

definition cache_Remove :: "memCache \<Rightarrow> u64 \<Rightarrow> memCache" where
  "cache_Remove cache key =
     (case m cache key of None \<Rightarrow> cache | Some _ \<Rightarrow> cache\<lparr>m := (m cache)(key \<mapsto> -1)\<rparr>)"

definition DB_Remove :: "DB \<Rightarrow> u64 \<Rightarrow> u64 \<Rightarrow> error option \<times> DB" where
  "DB_Remove db blockID key =
     (case getCache db blockID of
        None \<Rightarrow> (Some GoPanic, db)
      | Some cache \<Rightarrow> (None, setCache db blockID (cache_Remove cache key)))"

text \<open>
  \<open>DB.Set\<close>. \<open>uint32(len(data) + 4)\<close> truncates the length to 32 bits. An error of the arena
  is returned with the arena as that step left it.
\<close>

definition cache_Set :: "memCache \<Rightarrow> u64 \<Rightarrow> u8 list \<Rightarrow> error option \<times> memCache" where
  "cache_Set cache key d =
     (case allocate (data cache) (of_nat (length d + 4)) of
        Inl err \<Rightarrow> (Some err, cache)
      | Inr (off, t1) \<Rightarrow>
         (let scratch = PutUint32 (of_nat (length d + 4))
          in case writeAt t1 scratch off of
               Inl err \<Rightarrow> (Some err, cache\<lparr>data := t1\<rparr>)
             | Inr t2 \<Rightarrow>
                (case writeAt t2 d (off + 4) of
                   Inl err \<Rightarrow> (Some err, cache\<lparr>data := t2\<rparr>)
                 | Inr t3 \<Rightarrow> (None, cache\<lparr>data := t3, m := (m cache)(key \<mapsto> off)\<rparr>))))"

definition DB_Set :: "DB \<Rightarrow> u64 \<Rightarrow> u64 \<Rightarrow> u8 list \<Rightarrow> error option \<times> DB" where
  "DB_Set db blockID key d =
     (case getCache db blockID of
        None \<Rightarrow> (Some GoPanic, db)
      | Some cache \<Rightarrow>
         (let (err, cache') = cache_Set cache key d in (err, setCache db blockID cache')))"

section \<open>Window entries and window blocks\<close>

text \<open>
  The constants \<open>seqsPerWindowBlock\<close> and \<open>blockSize\<close> are declared outside the sources. They
  are parameters: \<open>blockSize\<close> is a \<open>uint32\<close> (the source multiplies it with \<open>uint32\<close> values),
  and the array type \<open>[seqsPerWindowBlock]winEntry\<close> is a list of that length, a loop over all
  its indices being the recursion over the list.
\<close>

record winEntry =
  seq :: u64
  expiresAt :: u32

record winBlock =
  topicHash :: u64
  entries :: "winEntry list"
  "next" :: i64
  cutoff :: i64
  entryIdx :: u16
  dirty :: bool
  leased :: bool

text \<open>The zero value of \<open>winBlock\<close>, for an array of \<open>seqsPerWindowBlock\<close> entries.\<close>

definition zero_winBlock :: "nat \<Rightarrow> winBlock" where
  "zero_winBlock seqsPerWindowBlock =
     \<lparr>topicHash = 0, winBlock.entries = replicate seqsPerWindowBlock \<lparr>seq = 0, expiresAt = 0\<rparr>,
      next = 0, cutoff = 0, entryIdx = 0, dirty = False, leased = False\<rparr>"

text \<open>\<open>winEntry.isExpired\<close>; \<open>now\<close> is \<open>uint32(time.Now().Unix())\<close>.\<close>

definition isExpired :: "u32 \<Rightarrow> winEntry \<Rightarrow> bool" where
  "isExpired now e = (expiresAt e \<noteq> 0 \<and> expiresAt e \<le> now)"

text \<open>\<open>winBlock.Cutoff\<close>, a comparison of \<open>int64\<close> values.\<close>

definition Cutoff :: "winBlock \<Rightarrow> i64 \<Rightarrow> bool" where
  "Cutoff w c = (cutoff w \<noteq> 0 \<and> cutoff w <s c)"

text \<open>
  \<open>winBlock.MarshalBinary\<close>. \<open>data\<close> is the whole buffer and \<open>buf\<close> a window into it that
  starts at \<open>pos\<close>; \<open>buf = buf[12:]\<close> moves the window. \<open>None\<close> is the panic of a slice
  expression that leaves the buffer.
\<close>

fun marshal_entries :: "winEntry list \<Rightarrow> u8 list \<Rightarrow> nat \<Rightarrow> (u8 list \<times> nat) option" where
  "marshal_entries [] dat pos = Some (dat, pos)"
| "marshal_entries (e # es) dat pos =
     (if pos + 12 \<le> length dat
      then marshal_entries es
             (put_at (put_at dat pos (PutUint64 (seq e))) (pos + 8) (PutUint32 (expiresAt e)))
             (pos + 12)
      else None)"

definition winBlock_MarshalBinary :: "u32 \<Rightarrow> winBlock \<Rightarrow> u8 list option" where
  "winBlock_MarshalBinary blockSize w =
     (case marshal_entries (winBlock.entries w) (replicate (unat blockSize) 0) 0 of
        None \<Rightarrow> None
      | Some (dat, pos) \<Rightarrow>
         (if pos + 26 \<le> length dat
          then Some (put_at (put_at (put_at (put_at dat pos (PutUint64 (cutoff w)))
                       (pos + 8) (PutUint64 (topicHash w)))
                       (pos + 16) (PutUint64 (next w)))
                       (pos + 24) (PutUint16 (entryIdx w)))
          else None))"

text \<open>
  \<open>winBlock.UnmarshalBinary\<close> writes into its receiver; \<open>dirty\<close> and \<open>leased\<close> keep the
  receiver's values. \<open>_ = data[12]\<close> panics unless \<open>data\<close> has more than 12 bytes.
\<close>

fun unmarshal_entries :: "winEntry list \<Rightarrow> u8 list \<Rightarrow> (winEntry list \<times> u8 list) option" where
  "unmarshal_entries [] dat = Some ([], dat)"
| "unmarshal_entries (e # es) dat =
     (if length dat \<le> 12 then None
      else do {
        s \<leftarrow> slice dat 0 8 \<bind> Uint64;
        x \<leftarrow> slice dat 8 12 \<bind> Uint32;
        (es', rest) \<leftarrow> unmarshal_entries es (drop 12 dat);
        Some (e\<lparr>seq := s, expiresAt := x\<rparr> # es', rest)
      })"

definition winBlock_UnmarshalBinary :: "winBlock \<Rightarrow> u8 list \<Rightarrow> winBlock option" where
  "winBlock_UnmarshalBinary w dat =
     do {
       (es, d) \<leftarrow> unmarshal_entries (winBlock.entries w) dat;
       c \<leftarrow> slice d 0 8 \<bind> Uint64;
       h \<leftarrow> slice d 8 16 \<bind> Uint64;
       n \<leftarrow> slice d 16 24 \<bind> Uint64;
       i \<leftarrow> slice d 24 26 \<bind> Uint16;
       Some (w\<lparr>winBlock.entries := es, cutoff := c, topicHash := h, next := n, entryIdx := i\<rparr>)
     }"

section \<open>The write-ahead log's headers (\<open>wal/header.go\<close>)\<close>

definition logHeaderSize :: nat where
  "logHeaderSize = 32"

definition headerSize :: nat where
  "headerSize = 70"

text \<open>
  \<open>logInfo\<close>. \<open>LogStatus\<close> is declared outside the sources; the code converts it to and from
  \<open>uint16\<close>, and it is that type here. The fields carry the prefix \<open>l_\<close>.
\<close>

record logInfo =
  l_version :: u16
  l_status :: u16
  l_entryCount :: u32
  l_seq :: u64
  l_size :: i64
  l_offset :: i64

definition logInfo_MarshalBinary :: "logInfo \<Rightarrow> u8 list" where
  "logInfo_MarshalBinary l =
     (let b = replicate logHeaderSize 0;
          b = put_at b 0 (PutUint16 (l_version l));
          b = put_at b 2 (PutUint16 (l_status l));
          b = put_at b 4 (PutUint32 (l_entryCount l));
          b = put_at b 8 (PutUint64 (l_seq l));
          b = put_at b 16 (PutUint64 (l_size l));
          b = put_at b 24 (PutUint64 (l_offset l))
      in b)"

definition logInfo_UnmarshalBinary :: "logInfo \<Rightarrow> u8 list \<Rightarrow> logInfo option" where
  "logInfo_UnmarshalBinary l dat =
     do {
       v \<leftarrow> slice dat 0 2 \<bind> Uint16;
       s \<leftarrow> slice dat 2 4 \<bind> Uint16;
       c \<leftarrow> slice dat 4 8 \<bind> Uint32;
       q \<leftarrow> slice dat 8 16 \<bind> Uint64;
       z \<leftarrow> slice dat 16 24 \<bind> Uint64;
       f \<leftarrow> slice dat 24 32 \<bind> Uint64;
       Some (l\<lparr>l_version := v, l_status := s, l_entryCount := c, l_seq := q, l_size := z,
               l_offset := f\<rparr>)
     }"

text \<open>
  \<open>header\<close>. The embedded \<open>fb\<close> is declared outside the sources; the code reads and writes
  \<open>fb[0]\<close>, \<open>fb[1]\<close> and \<open>fb[2]\<close>, each with an \<open>int64\<close> \<open>size\<close> and \<open>offset\<close>, so it is a
  triple of such blocks here. \<open>signature\<close> is the array \<open>[8]byte\<close>, a list of length 8. The
  fields carry the prefix \<open>h_\<close>.
\<close>

record freeBlock =
  fb_size :: i64
  fb_offset :: i64

record header =
  h_signature :: "u8 list"
  h_version :: u32
  h_seq :: u64
  h_fb :: "freeBlock \<times> freeBlock \<times> freeBlock"

text \<open>\<open>copy(dst, src)\<close> copies as many elements as the shorter of the two holds.\<close>

definition copy :: "'a list \<Rightarrow> 'a list \<Rightarrow> 'a list" where
  "copy dst src = take (min (length dst) (length src)) src @ drop (min (length dst) (length src)) dst"

definition header_MarshalBinary :: "header \<Rightarrow> u8 list" where
  "header_MarshalBinary h =
     (let (fb0, fb1, fb2) = h_fb h;
          b = replicate headerSize 0;
          b = copy (take 8 b) (h_signature h) @ drop 8 b;
          b = put_at b 8 (PutUint32 (h_version h));
          b = put_at b 12 (PutUint64 (h_seq h));
          b = put_at b 20 (PutUint64 (fb_size fb0));
          b = put_at b 28 (PutUint64 (fb_offset fb0));
          b = put_at b 36 (PutUint64 (fb_size fb1));
          b = put_at b 44 (PutUint64 (fb_offset fb1));
          b = put_at b 52 (PutUint64 (fb_size fb2));
          b = put_at b 60 (PutUint64 (fb_offset fb2))
      in b)"

definition header_UnmarshalBinary :: "header \<Rightarrow> u8 list \<Rightarrow> header option" where
  "header_UnmarshalBinary h dat =
     do {
       sg \<leftarrow> slice dat 0 8;
       v \<leftarrow> slice dat 8 12 \<bind> Uint32;
       q \<leftarrow> slice dat 12 20 \<bind> Uint64;
       s0 \<leftarrow> slice dat 20 28 \<bind> Uint64;
       o0 \<leftarrow> slice dat 28 36 \<bind> Uint64;
       s1 \<leftarrow> slice dat 36 44 \<bind> Uint64;
       o1 \<leftarrow> slice dat 44 52 \<bind> Uint64;
       s2 \<leftarrow> slice dat 52 60 \<bind> Uint64;
       o2 \<leftarrow> slice dat 60 68 \<bind> Uint64;
       Some (h\<lparr>h_signature := copy (h_signature h) sg, h_version := v, h_seq := q,
               h_fb := (\<lparr>fb_size = s0, fb_offset = o0\<rparr>, \<lparr>fb_size = s1, fb_offset = o1\<rparr>,
                        \<lparr>fb_size = s2, fb_offset = o2\<rparr>)\<rparr>)
     }"

section \<open>The window writer (\<open>windowWriter.append\<close>)\<close>

text \<open>
  The file behind the window is reached through the interface \<open>FileManager\<close> of
  \<open>fs/file.go\<close>; the writer carries its \<open>Slice(start, end)\<close> as a function. \<open>winBlocks\<close> and
  \<open>leasing\<close> are Go maps keyed by the \<open>int32\<close> block index. The \<open>bpool\<close> buffer that
  \<open>write\<close> uses is left out.
\<close>

record windowWriter =
  "file" :: "i64 \<Rightarrow> i64 \<Rightarrow> error + u8 list"
  windowIdx :: i32
  winBlocks :: "i32 \<rightharpoonup> winBlock"
  leasing :: "i32 \<rightharpoonup> u64 list"

text \<open>
  \<open>windowHandle.read\<close> for a handle whose block is still the zero value: a failing \<open>Slice\<close>
  returns its error, and \<open>UnmarshalBinary\<close> fills the block or panics on a short buffer.
\<close>

definition read :: "(i64 \<Rightarrow> i64 \<Rightarrow> error + u8 list) \<Rightarrow> u32 \<Rightarrow> nat \<Rightarrow> i64 \<Rightarrow> error + winBlock" where
  "read f blockSize seqsPerWindowBlock off =
     (case f off (off + ucast blockSize) of
        Inl err \<Rightarrow> Inl err
      | Inr b \<Rightarrow> (case winBlock_UnmarshalBinary (zero_winBlock seqsPerWindowBlock) b of
                   None \<Rightarrow> Inl GoPanic
                 | Some w \<Rightarrow> Inr w))"

text \<open>\<open>int64(blockSize * uint32(winIdx))\<close>: a product of \<open>uint32\<close> values, widened.\<close>

definition blockOffset :: "u32 \<Rightarrow> i32 \<Rightarrow> i64" where
  "blockOffset blockSize winIdx = ucast (blockSize * winIdx)"

text \<open>
  One round of the loop \<open>for _, we := range wEntries\<close> of \<open>append\<close>, on the variables the
  loop changes: the writer, \<open>winIdx\<close> and the current block \<open>w\<close>. \<open>now\<close> is
  \<open>time.Now().Unix()\<close> as read in this round. The scan for an equal \<open>seq\<close> runs over all
  slots of the array. Writing \<open>w.entries[w.entryIdx]\<close> outside the array panics.
\<close>

definition append_entry ::
  "u32 \<Rightarrow> nat \<Rightarrow> i64 \<Rightarrow> windowWriter \<times> i32 \<times> winBlock \<Rightarrow> winEntry
     \<Rightarrow> error + windowWriter \<times> i32 \<times> winBlock" where
  "append_entry blockSize seqsPerWindowBlock now st we =
     (let (wb, winIdx, w) = st
      in if seq we = 0 then Inr (wb, winIdx, w)
         else if seq we \<in> set (map seq (winBlock.entries w)) then Inr (wb, winIdx, w)
         else
          (let (wb, winIdx, w) =
                 (if unat (entryIdx w) = seqsPerWindowBlock
                  then (wb\<lparr>winBlocks := (winBlocks wb)(winIdx \<mapsto> w\<lparr>cutoff := now\<rparr>),
                            windowIdx := windowIdx wb + 1\<rparr>,
                        windowIdx wb + 1,
                        (zero_winBlock seqsPerWindowBlock)
                          \<lparr>topicHash := topicHash w, next := blockOffset blockSize winIdx\<rparr>)
                  else (wb, winIdx, w));
               wb = (if leased w
                     then wb\<lparr>leasing := (leasing wb)
                            (winIdx \<mapsto> (case leasing wb winIdx of None \<Rightarrow> [] | Some l \<Rightarrow> l) @ [seq we])\<rparr>
                     else wb)
           in if unat (entryIdx w) < length (winBlock.entries w)
              then Inr (wb, winIdx,
                        w\<lparr>winBlock.entries := (winBlock.entries w)
                              [unat (entryIdx w) := \<lparr>seq = seq we, expiresAt = expiresAt we\<rparr>],
                          dirty := True, entryIdx := entryIdx w + 1\<rparr>)
              else Inl GoPanic))"

text \<open>The loop; \<open>clock j\<close> is the wall clock in round \<open>j\<close>.\<close>

fun append_entries ::
  "u32 \<Rightarrow> nat \<Rightarrow> (nat \<Rightarrow> i64) \<Rightarrow> nat \<Rightarrow> windowWriter \<times> i32 \<times> winBlock \<Rightarrow> winEntry list
     \<Rightarrow> error + windowWriter \<times> i32 \<times> winBlock" where
  "append_entries blockSize seqsPerWindowBlock clock j st [] = Inr st"
| "append_entries blockSize seqsPerWindowBlock clock j st (we # wEntries) =
     (case append_entry blockSize seqsPerWindowBlock (clock j) st we of
        Inl err \<Rightarrow> Inl err
      | Inr st' \<Rightarrow> append_entries blockSize seqsPerWindowBlock clock (Suc j) st' wEntries)"

text \<open>
  The head of \<open>append\<close>: the block index and the block the loop starts with.
  \<open>int32(off / int64(blockSize))\<close> divides \<open>int64\<close> values, rounding towards zero, and keeps
  the low 32 bits. A block that is not in \<open>winBlocks\<close> is the zero value, or, for \<open>off > 0\<close>
  and an index up to \<open>windowIdx\<close>, the block read from the file and marked \<open>leased\<close>; there
  \<open>io.EOF\<close> leaves the zero value and any other error is returned (with \<open>off\<close>).
\<close>

definition append_start ::
  "u32 \<Rightarrow> nat \<Rightarrow> windowWriter \<Rightarrow> i64 \<Rightarrow> error + windowWriter \<times> i32 \<times> winBlock" where
  "append_start blockSize seqsPerWindowBlock wb off =
     (let (wb, winIdx) =
            (if off = 0 then (wb\<lparr>windowIdx := windowIdx wb + 1\<rparr>, windowIdx wb + 1)
             else (wb, word_of_int (sint off sdiv sint (ucast blockSize :: i64))))
      in case winBlocks wb winIdx of
           Some w \<Rightarrow> Inr (wb, winIdx, w)
         | None \<Rightarrow>
            (if 0 <s off \<and> winIdx \<le>s windowIdx wb
             then (case read (file wb) blockSize seqsPerWindowBlock off of
                     Inl err \<Rightarrow>
                       (if err \<noteq> EOF then Inl err
                        else Inr (wb, winIdx, (zero_winBlock seqsPerWindowBlock)\<lparr>leased := True\<rparr>))
                   | Inr w \<Rightarrow> Inr (wb, winIdx, w\<lparr>leased := True\<rparr>))
             else Inr (wb, winIdx, zero_winBlock seqsPerWindowBlock)))"

text \<open>\<open>windowWriter.append\<close>: the new offset and the writer, or the error.\<close>

definition append ::
  "u32 \<Rightarrow> nat \<Rightarrow> (nat \<Rightarrow> i64) \<Rightarrow> windowWriter \<Rightarrow> u64 \<Rightarrow> i64 \<Rightarrow> winEntry list
     \<Rightarrow> error + i64 \<times> windowWriter" where
  "append blockSize seqsPerWindowBlock clock wb topicHash' off wEntries =
     (case append_start blockSize seqsPerWindowBlock wb off of
        Inl err \<Rightarrow> Inl err
      | Inr (wb, winIdx, w) \<Rightarrow>
         (case append_entries blockSize seqsPerWindowBlock clock 0
                 (wb, winIdx, w\<lparr>topicHash := topicHash'\<rparr>) wEntries of
            Inl err \<Rightarrow> Inl err
          | Inr (wb, winIdx, w) \<Rightarrow>
             Inr (blockOffset blockSize winIdx, wb\<lparr>winBlocks := (winBlocks wb)(winIdx \<mapsto> w)\<rparr>)))"

section \<open>The time-window bucket in memory\<close>

text \<open>
  \<open>timeWindow\<close>: one shard of \<open>windowBlocks\<close>. The functions below take the shard that
  \<open>getWindowBlock\<close> selects through the consistent-hash ring.
\<close>

record timeWindow =
  freezed :: bool
  entries :: "u64 \<rightharpoonup> winEntry list"
  friezedEntries :: "u64 \<rightharpoonup> winEntry list"

text \<open>\<open>timeWindowBucket.add\<close> on the shard; it returns nil.\<close>

definition timeWindow_add :: "timeWindow \<Rightarrow> u64 \<Rightarrow> winEntry \<Rightarrow> timeWindow" where
  "timeWindow_add wb h e =
     (if freezed wb
      then wb\<lparr>friezedEntries := (friezedEntries wb)
              (h \<mapsto> (case friezedEntries wb h of None \<Rightarrow> [e] | Some es \<Rightarrow> es @ [e]))\<rparr>
      else wb\<lparr>timeWindow.entries := (timeWindow.entries wb)
              (h \<mapsto> (case timeWindow.entries wb h of None \<Rightarrow> [e] | Some es \<Rightarrow> es @ [e]))\<rparr>)"

definition reset :: "timeWindow \<Rightarrow> timeWindow" where
  "reset w = w\<lparr>timeWindow.entries := Map.empty\<rparr>"

definition freeze :: "timeWindow \<Rightarrow> timeWindow" where
  "freeze w = w\<lparr>freezed := True\<rparr>"

text \<open>
  \<open>unFreeze\<close>: the loop over the keys of \<open>friezedEntries\<close> appends, for each key, the frozen
  entries to \<open>entries[h]\<close> (nil for a missing key). Each round touches its own key only, so
  the order of the rounds does not matter and the result is the map below.
\<close>

definition unFreeze :: "timeWindow \<Rightarrow> timeWindow" where
  "unFreeze w =
     w\<lparr>freezed := False,
       timeWindow.entries :=
         (\<lambda>h. case friezedEntries w h of
                None \<Rightarrow> timeWindow.entries w h
              | Some fs \<Rightarrow> Some ((case timeWindow.entries w h of None \<Rightarrow> [] | Some es \<Rightarrow> es) @ fs)),
       friezedEntries := Map.empty\<rparr>"

text \<open>
  One round of the loop of \<open>foreachTimeWindow\<close>, for the shard \<open>wb\<close>. The callback \<open>f\<close> works
  on a state of its own (\<open>'s\<close>: whatever its closure captures) and returns \<open>(stop, err1)\<close>.
  The shard's lock is released while \<open>f\<close> runs; \<open>arrivals\<close> are the entries that writers add
  through \<open>timeWindowBucket.add\<close> in that time. The first component is the variable \<open>err\<close>.
\<close>

definition foreachTimeWindow_shard ::
  "bool \<Rightarrow> ((u64 \<rightharpoonup> winEntry list) \<Rightarrow> 's \<Rightarrow> (bool \<times> error option) \<times> 's) \<Rightarrow> (u64 \<times> winEntry) list
     \<Rightarrow> error option \<times> 's \<Rightarrow> timeWindow \<Rightarrow> (error option \<times> 's) \<times> timeWindow" where
  "foreachTimeWindow_shard frz f arrivals st wb =
     (let (err, s) = st;
          wb = (if frz then freeze wb else wb);
          wEntries = timeWindow.entries wb;
          ((stop, err1), s) = f wEntries s;
          wb = foldl (\<lambda>w (h, e). timeWindow_add w h e) wb arrivals
      in if stop \<or> err1 \<noteq> None
         then ((err1, s), if frz then unFreeze wb else wb)
         else ((err, s), if frz then unFreeze (reset wb) else wb))"

text \<open>The loop over the shards; \<open>arr i\<close> are the arrivals while the callback runs on shard \<open>i\<close>.\<close>

fun foreachTimeWindow_loop ::
  "bool \<Rightarrow> ((u64 \<rightharpoonup> winEntry list) \<Rightarrow> 's \<Rightarrow> (bool \<times> error option) \<times> 's)
     \<Rightarrow> (nat \<Rightarrow> (u64 \<times> winEntry) list) \<Rightarrow> nat
     \<Rightarrow> error option \<times> 's \<Rightarrow> timeWindow list \<Rightarrow> (error option \<times> 's) \<times> timeWindow list" where
  "foreachTimeWindow_loop frz f arr i st [] = (st, [])"
| "foreachTimeWindow_loop frz f arr i st (wb # wbs) =
     (let (st, wb) = foreachTimeWindow_shard frz f (arr i) st wb;
          (st, wbs) = foreachTimeWindow_loop frz f arr (Suc i) st wbs
      in (st, wb # wbs))"

definition foreachTimeWindow ::
  "bool \<Rightarrow> ((u64 \<rightharpoonup> winEntry list) \<Rightarrow> 's \<Rightarrow> (bool \<times> error option) \<times> 's)
     \<Rightarrow> (nat \<Rightarrow> (u64 \<times> winEntry) list)
     \<Rightarrow> 's \<Rightarrow> timeWindow list \<Rightarrow> (error option \<times> 's) \<times> timeWindow list" where
  "foreachTimeWindow frz f arr s window = foreachTimeWindow_loop frz f arr 0 (None, s) window"

subsection \<open>\<open>ilookup\<close> and \<open>lookup\<close>\<close>

text \<open>
  The loops of \<open>ilookup\<close> and \<open>lookup\<close> over a slice of entries: an expired entry is passed
  to \<open>addExpiry\<close> and skipped, any other is appended to \<open>winEntries\<close>. \<open>addExpiry\<close> belongs
  to the expiry bucket, which is outside the sources; its result only decides whether
  \<open>expiryCount\<close> is incremented. The first loop of \<open>ilookup\<close> increments it for every expired
  entry, and this is the count below; after the other loops the counter is not read again.
  \<open>now\<close> is \<open>uint32(time.Now().Unix())\<close>, taken as constant over one call.
\<close>

fun scan :: "u32 \<Rightarrow> winEntry list \<Rightarrow> winEntry list \<times> int \<Rightarrow> winEntry list \<times> int" where
  "scan now [] st = st"
| "scan now (we # wes) (winEntries, expiryCount) =
     (if isExpired now we then scan now wes (winEntries, expiryCount + 1)
      else scan now wes (winEntries @ [we], expiryCount))"

text \<open>\<open>s[len(s)-l:]\<close>; the lower bound must lie between 0 and the length.\<close>

definition from_end :: "'a list \<Rightarrow> int \<Rightarrow> 'a list option" where
  "from_end s l =
     (if 0 \<le> l \<and> l \<le> int (length s) then Some (drop (nat (int (length s) - l)) s) else None)"

text \<open>
  \<open>ilookup\<close>, in its two passes. The first runs over the newest \<open>l\<close> entries of
  \<open>friezedEntries[topicHash]\<close> and leaves \<open>winEntries\<close>, \<open>expiryCount\<close> and \<open>l\<close> (all zero
  for an empty list); the second runs over the newest \<open>limit + expiryCount - l\<close> entries of
  \<open>entries[topicHash]\<close>. A key that is missing in a map reads as the nil slice.
\<close>

definition ilookup_frozen :: "u32 \<Rightarrow> winEntry list \<Rightarrow> int \<Rightarrow> error + winEntry list \<times> int \<times> int" where
  "ilookup_frozen now wEntries limit =
     (if 0 < length wEntries
      then (let l = (if int (length wEntries) < limit then int (length wEntries) else limit)
            in case from_end wEntries l of
                 None \<Rightarrow> Inl GoPanic
               | Some s \<Rightarrow> (let (winEntries, expiryCount) = scan now s ([], 0)
                           in Inr (winEntries, expiryCount, l)))
      else Inr ([], 0, 0))"

definition ilookup_entries ::
  "u32 \<Rightarrow> winEntry list \<Rightarrow> int \<Rightarrow> winEntry list \<times> int \<times> int \<Rightarrow> error + winEntry list" where
  "ilookup_entries now wEntries limit st =
     (let (winEntries, expiryCount, l) = st
      in if 0 < length wEntries
         then (let l = limit + expiryCount - l;
                   l = (if int (length wEntries) < l then int (length wEntries) else l)
               in case from_end wEntries l of
                    None \<Rightarrow> Inl GoPanic
                  | Some s \<Rightarrow> Inr (fst (scan now s (winEntries, expiryCount))))
         else Inr winEntries)"

definition ilookup :: "u32 \<Rightarrow> timeWindow \<Rightarrow> u64 \<Rightarrow> int \<Rightarrow> error + winEntry list" where
  "ilookup now wb topicHash' limit =
     (case ilookup_frozen now
             (case friezedEntries wb topicHash' of None \<Rightarrow> [] | Some es \<Rightarrow> es) limit of
        Inl err \<Rightarrow> Inl err
      | Inr st \<Rightarrow>
          ilookup_entries now
            (case timeWindow.entries wb topicHash' of None \<Rightarrow> [] | Some es \<Rightarrow> es) limit st)"

text \<open>
  The callback that \<open>lookup\<close> passes to \<open>next\<close>, on the captured variables \<open>winEntries\<close> and
  \<open>limit\<close>; the result is \<open>stop\<close> with their new values. \<open>uint16(limit)\<close> keeps the low 16
  bits, and the slice bounds are \<open>uint16\<close> values on the array of the block.
\<close>

definition lookup_block ::
  "u32 \<Rightarrow> u64 \<Rightarrow> i64 \<Rightarrow> winEntry list \<times> int \<Rightarrow> winBlock \<Rightarrow> error + bool \<times> winEntry list \<times> int" where
  "lookup_block now topicHash' cutoff' st b =
     (let (winEntries, limit) = st
      in if topicHash b \<noteq> topicHash' then Inr (True, winEntries, limit)
         else
          (case (if int (length winEntries) > limit - int (unat (entryIdx b))
                 then (let limit = limit - int (length winEntries)
                       in case slice (winBlock.entries b)
                                 (unat (entryIdx b - word_of_int limit)) (unat (entryIdx b)) of
                            None \<Rightarrow> Inl GoPanic
                          | Some s \<Rightarrow> (let winEntries = fst (scan now s (winEntries, 0))
                                      in Inr (int (length winEntries) \<ge> limit, winEntries, limit)))
                 else Inr (False, winEntries, limit)) of
             Inl err \<Rightarrow> Inl err
           | Inr (True, winEntries, limit) \<Rightarrow> Inr (True, winEntries, limit)
           | Inr (False, winEntries, limit) \<Rightarrow>
              (case slice (winBlock.entries b) 0 (unat (entryIdx b)) of
                 None \<Rightarrow> Inl GoPanic
               | Some s \<Rightarrow> Inr (Cutoff b cutoff', fst (scan now s (winEntries, 0)), limit))))"

text \<open>
  The closure \<open>next\<close> with the callback: the loop \<open>for { ... }\<close> along the chain of blocks.
  It has no bound of its own, so it runs on fuel and \<open>None\<close> is the loop that has not
  returned. An error of \<open>read\<close> ends the loop, and \<open>lookup\<close> then returns what it has; a
  panic leaves \<open>lookup\<close>.
\<close>

fun next_loop ::
  "nat \<Rightarrow> (i64 \<Rightarrow> i64 \<Rightarrow> error + u8 list) \<Rightarrow> u32 \<Rightarrow> nat \<Rightarrow> u32 \<Rightarrow> u64 \<Rightarrow> i64 \<Rightarrow> i64
     \<Rightarrow> winEntry list \<times> int \<Rightarrow> (error + winEntry list) option" where
  "next_loop 0 f blockSize seqsPerWindowBlock now topicHash' cutoff' off st = None"
| "next_loop (Suc fuel) f blockSize seqsPerWindowBlock now topicHash' cutoff' off st =
     (case read f blockSize seqsPerWindowBlock off of
        Inl err \<Rightarrow> (if err = GoPanic then Some (Inl GoPanic) else Some (Inr (fst st)))
      | Inr b \<Rightarrow>
         (case lookup_block now topicHash' cutoff' st b of
            Inl err \<Rightarrow> Some (Inl err)
          | Inr (stop, winEntries, limit) \<Rightarrow>
             (if stop then Some (Inr winEntries)
              else if next b = 0 then Some (Inr winEntries)
              else next_loop fuel f blockSize seqsPerWindowBlock now topicHash' cutoff' (next b)
                     (winEntries, limit))))"

definition lookup ::
  "nat \<Rightarrow> (i64 \<Rightarrow> i64 \<Rightarrow> error + u8 list) \<Rightarrow> u32 \<Rightarrow> nat \<Rightarrow> u32 \<Rightarrow> timeWindow \<Rightarrow> u64 \<Rightarrow> i64 \<Rightarrow> i64
     \<Rightarrow> int \<Rightarrow> (error + winEntry list) option" where
  "lookup fuel f blockSize seqsPerWindowBlock now wb topicHash' off cutoff' limit =
     (case ilookup now wb topicHash' limit of
        Inl err \<Rightarrow> Some (Inl err)
      | Inr winEntries \<Rightarrow>
         (if int (length winEntries) \<ge> limit then Some (Inr winEntries)
          else next_loop fuel f blockSize seqsPerWindowBlock now topicHash' cutoff' off
                 (winEntries, limit)))"

section \<open>The topic trie\<close>

text \<open>
  The types \<open>topic\<close> and \<open>message.Part\<close> are declared outside the sources; the code uses the
  fields \<open>hash\<close> (compared with \<open>uint64\<close> keys) and \<open>offset\<close> (an \<open>int64\<close>) of the first and
  \<open>Query\<close> and \<open>Wildchars\<close> of the second.
\<close>

record topic =
  hash :: u64
  offset :: i64


record key =
  query :: u32
  wildchars :: u8

text \<open>\<open>topics.addUnique\<close>: the flag \<open>added\<close> and the list after the call.\<close>

fun addUnique :: "topic list \<Rightarrow> topic \<Rightarrow> bool \<times> topic list" where
  "addUnique [] val = (True, [val])"
| "addUnique (v # tops) val =
     (if hash v = hash val then (False, v\<lparr>offset := offset val\<rparr> # tops)
      else (let (added, tops') = addUnique tops val in (added, v # tops')))"







section \<open>The sync coordinator (\<open>syncHandle.startSync\<close>, \<open>syncHandle.Sync\<close>)\<close>

text \<open>
  \<open>syncHandle\<close> embeds \<open>internal\<close> and the pointer to the DB. The DB (\<open>'db\<close>), the buffers
  and the writers (\<open>'w\<close>) are declared outside the sources; the functions take what they
  use of them as arguments: \<open>Seq\<close> reads the DB's sequence (\<open>db.Seq()\<close>), \<open>prepare\<close> stands
  for the two \<open>bufPool.Get\<close> with \<open>newBlockWriter\<close> and \<open>newDataWriter\<close>, \<open>release\<close> for the
  two \<open>bufPool.Put\<close>.
\<close>

record ('db, 'w) syncHandle =
  upperSeq :: u64
  lastSyncSeq :: u64
  syncStatusOk :: bool
  writers :: 'w
  DB :: 'db

definition startSync ::
  "('db \<Rightarrow> u64) \<Rightarrow> ('db \<Rightarrow> 'w \<times> 'db) \<Rightarrow> ('db, 'w) syncHandle \<Rightarrow> bool \<times> ('db, 'w) syncHandle" where
  "startSync Seq prepare h =
     (if lastSyncSeq h = Seq (DB h) then (False, h\<lparr>syncStatusOk := False\<rparr>)
      else (let (w, d) = prepare (DB h)
            in (True, h\<lparr>lastSyncSeq := Seq (DB h), writers := w, DB := d, syncStatusOk := True\<rparr>)))"

definition finish :: "('w \<Rightarrow> 'db \<Rightarrow> 'db) \<Rightarrow> ('db, 'w) syncHandle \<Rightarrow> ('db, 'w) syncHandle" where
  "finish release h = (if \<not> syncStatusOk h then h else h\<lparr>DB := release (writers h) (DB h)\<rparr>)"

text \<open>
  \<open>syncHandle.Sync\<close>. \<open>pipeline\<close> stands for everything between \<open>startSync\<close> and the return:
  the call of \<open>foreachTimeWindow\<close> with the closure that writes the window, index and data
  files, and the recovery after an error; \<open>None\<close> is its panic. The send to and the receive
  from \<open>syncLockC\<close> and the calls on \<open>closeW\<close> cancel each other and are left out. The
  result is the handle after a call that returned nil, or the panic.
\<close>

definition Sync ::
  "('db \<Rightarrow> u64) \<Rightarrow> ('db \<Rightarrow> 'w \<times> 'db) \<Rightarrow> ('w \<Rightarrow> 'db \<Rightarrow> 'db)
     \<Rightarrow> (('db, 'w) syncHandle \<Rightarrow> ('db, 'w) syncHandle option)
     \<Rightarrow> ('db, 'w) syncHandle \<Rightarrow> error + ('db, 'w) syncHandle" where
  "Sync Seq prepare release pipeline h =
     (let (ok, h) = startSync Seq prepare h
      in if \<not> ok then Inr h
         else (case pipeline h of
                 None \<Rightarrow> Inl GoPanic
               | Some h \<Rightarrow> Inr (finish release h)))"

section \<open>Notions used in the statements and proofs\<close>

text \<open>The bytes of one window entry in a marshalled block.\<close>

definition enc :: "winEntry \<Rightarrow> u8 list" where
  "enc e = PutUint64 (seq e) @ PutUint32 (expiresAt e)"

text \<open>
  Calls on the memdb that may come between a \<open>Set\<close> and a later \<open>Get\<close>, and the test whether
  such a call addresses a given key in the shard of a given block id.
\<close>

datatype memop = OpSet u64 u64 "u8 list" | OpRemove u64 u64

fun apply_op :: "DB \<Rightarrow> memop \<Rightarrow> DB" where
  "apply_op d (OpSet blockID key v) = snd (DB_Set d blockID key v)"
| "apply_op d (OpRemove blockID key) = snd (DB_Remove d blockID key)"

fun touches :: "DB \<Rightarrow> u64 \<Rightarrow> u64 \<Rightarrow> memop \<Rightarrow> bool" where
  "touches d blockID key (OpSet blockID' key' v) =
     (consistent d blockID' = consistent d blockID \<and> key' = key)"
| "touches d blockID key (OpRemove blockID' key') =
     (consistent d blockID' = consistent d blockID \<and> key' = key)"

text \<open>
  A shard holds the value \<open>v\<close> under \<open>key\<close>: the map points at a region of the arena that
  carries the length prefix and the bytes.
\<close>

definition stored :: "memCache \<Rightarrow> u64 \<Rightarrow> u8 list \<Rightarrow> bool" where
  "stored c key v =
     (length v + 4 < 2 ^ 32 \<and>
      (\<exists>off. m c key = Some (int off) \<and> off + 4 + length v \<le> length (buf (data c)) \<and>
         take (4 + length v) (drop off (buf (data c))) = PutUint32 (of_nat (length v + 4)) @ v))"

definition extends :: "'a list \<Rightarrow> 'a list \<Rightarrow> bool" where
  "extends b b' = (length b \<le> length b' \<and> take (length b) b' = b)"

definition holds :: "DB \<Rightarrow> DB \<Rightarrow> u64 \<Rightarrow> u64 \<Rightarrow> u8 list \<Rightarrow> bool" where
  "holds d0 d' blockID key v =
     (consistent d' = consistent d0 \<and> consistent d0 blockID < length (blockCache d') \<and>
      stored (blockCache d' ! consistent d0 blockID) key v)"

text \<open>Two memdbs for concrete runs: a fresh one, and one whose shard 3 holds key 7.\<close>

definition db1 :: DB where
  "db1 = \<lparr>consistent = (\<lambda>b. unat b mod nShards), blockCache = newBlockCache\<rparr>"

definition db2 :: DB where
  "db2 = \<lparr>consistent = (\<lambda>b. unat b mod nShards),
          blockCache = newBlockCache[3 := \<lparr>data = \<lparr>buf = [5, 0, 0, 0, 42]\<rparr>, freeOffset = 0,
                                        m = [7 \<mapsto> 0]\<rparr>]\<rparr>"

text \<open>A window block of two slots, and log infos and headers of the write-ahead log.\<close>

definition block1 :: winBlock where
  "block1 = \<lparr>topicHash = 7, winBlock.entries = [\<lparr>seq = 1, expiresAt = 0\<rparr>, \<lparr>seq = 2, expiresAt = 9\<rparr>],
             next = 100, cutoff = -1, entryIdx = 2, dirty = False, leased = False\<rparr>"

definition logInfo0 :: logInfo where
  "logInfo0 = \<lparr>l_version = 0, l_status = 0, l_entryCount = 0, l_seq = 0, l_size = 0, l_offset = 0\<rparr>"

definition logInfo1 :: logInfo where
  "logInfo1 = \<lparr>l_version = 1, l_status = 2, l_entryCount = 3, l_seq = 1000, l_size = 64,
               l_offset = 70\<rparr>"

definition header0 :: header where
  "header0 = \<lparr>h_signature = replicate 8 0, h_version = 0, h_seq = 0,
              h_fb = (\<lparr>fb_size = 0, fb_offset = 0\<rparr>, \<lparr>fb_size = 0, fb_offset = 0\<rparr>,
                      \<lparr>fb_size = 0, fb_offset = 0\<rparr>)\<rparr>"

definition header1 :: header where
  "header1 = \<lparr>h_signature = [116, 114, 97, 99, 101, 100, 98, 253], h_version = 1, h_seq = 77,
              h_fb = (\<lparr>fb_size = 16, fb_offset = 70\<rparr>, \<lparr>fb_size = 0, fb_offset = 0\<rparr>,
                      \<lparr>fb_size = -1, fb_offset = 4096\<rparr>)\<rparr>"

text \<open>The frozen map after the writers of \<open>arrivals\<close> have added their entries to it.\<close>

fun arrived :: "(u64 \<rightharpoonup> winEntry list) \<Rightarrow> (u64 \<times> winEntry) list \<Rightarrow> (u64 \<rightharpoonup> winEntry list)" where
  "arrived fr [] = fr"
| "arrived fr ((h, e) # as) =
     arrived (fr(h \<mapsto> (case fr h of None \<Rightarrow> [e] | Some es \<Rightarrow> es @ [e]))) as"

text \<open>
  A shard with a frozen list and a live list for topic hash 7: at time 100 the entry with
  \<open>seq\<close> 1 is expired. A callback for \<open>foreachTimeWindow\<close> that counts its calls and fails
  on a snapshot that knows hash 9.
\<close>

definition tw1 :: timeWindow where
  "tw1 = \<lparr>freezed = False,
          timeWindow.entries = [7 \<mapsto> [\<lparr>seq = 3, expiresAt = 0\<rparr>, \<lparr>seq = 4, expiresAt = 0\<rparr>,
                                        \<lparr>seq = 5, expiresAt = 0\<rparr>]],
          friezedEntries = [7 \<mapsto> [\<lparr>seq = 1, expiresAt = 50\<rparr>, \<lparr>seq = 2, expiresAt = 0\<rparr>]]\<rparr>"

definition tw2 :: timeWindow where
  "tw2 = \<lparr>freezed = False, timeWindow.entries = [9 \<mapsto> [\<lparr>seq = 6, expiresAt = 0\<rparr>]],
          friezedEntries = Map.empty\<rparr>"

definition callback1 :: "(u64 \<rightharpoonup> winEntry list) \<Rightarrow> nat \<Rightarrow> (bool \<times> error option) \<times> nat" where
  "callback1 w s = (if w 9 = None then ((False, None), Suc s) else ((True, Some ErrIO), Suc s))"




text \<open>
  A window file whose block at offset 62 (blocks of 62 bytes, three slots) holds the entries
  with \<open>seq\<close> 1, 2 and 3 for topic hash 7, the last of them expired at time 100; an empty
  shard; and a writer on that file.
\<close>

definition block2 :: winBlock where
  "block2 = \<lparr>topicHash = 7,
             winBlock.entries = [\<lparr>seq = 1, expiresAt = 0\<rparr>, \<lparr>seq = 2, expiresAt = 0\<rparr>,
                                 \<lparr>seq = 3, expiresAt = 50\<rparr>],
             next = 0, cutoff = 0, entryIdx = 3, dirty = False, leased = False\<rparr>"

definition file1 :: "i64 \<Rightarrow> i64 \<Rightarrow> error + u8 list" where
  "file1 lo hi =
     (if lo = 62 \<and> hi = 124
      then (case winBlock_MarshalBinary 62 block2 of None \<Rightarrow> Inl ErrIO | Some b \<Rightarrow> Inr b)
      else Inl EOF)"

definition tw0 :: timeWindow where
  "tw0 = \<lparr>freezed = False, timeWindow.entries = Map.empty, friezedEntries = Map.empty\<rparr>"

definition writer1 :: windowWriter where
  "writer1 = \<lparr>file = file1, windowIdx = 1, winBlocks = [1 \<mapsto> block2], leasing = Map.empty\<rparr>"




text \<open>
  The same block in an array of \<open>n\<close> slots, and a window file of blocks of \<open>blockSize\<close>
  bytes that holds it as its second block.
\<close>

definition blockN :: "nat \<Rightarrow> winBlock" where
  "blockN n = \<lparr>topicHash = 7,
               winBlock.entries = [\<lparr>seq = 1, expiresAt = 0\<rparr>, \<lparr>seq = 2, expiresAt = 0\<rparr>,
                                   \<lparr>seq = 3, expiresAt = 50\<rparr>]
                                  @ replicate (n - 3) \<lparr>seq = 0, expiresAt = 0\<rparr>,
               next = 0, cutoff = 0, entryIdx = 3, dirty = False, leased = False\<rparr>"

definition fileN :: "u32 \<Rightarrow> nat \<Rightarrow> i64 \<Rightarrow> i64 \<Rightarrow> error + u8 list" where
  "fileN blockSize n lo hi =
     (if lo = ucast blockSize \<and> hi = ucast blockSize + ucast blockSize
      then (case winBlock_MarshalBinary blockSize (blockN n) of None \<Rightarrow> Inl ErrIO | Some b \<Rightarrow> Inr b)
      else Inl EOF)"

text \<open>A sync handle on a DB that is just its sequence, in sync at sequence 5.\<close>

definition handle1 :: "(u64, unit) syncHandle" where
  "handle1 = \<lparr>upperSeq = 5, lastSyncSeq = 5, syncStatusOk = True, writers = (), DB = 5\<rparr>"

chapter \<open>Properties\<close>

section \<open>Little-endian encoding and slices\<close>

lemma le16: "(ucast (ucast v :: u8) OR push_bit 8 (ucast (ucast (drop_bit 8 v) :: u8))) = (v::u16)"
  (is "?w = v")
proof (rule bit_word_eqI)
  fix n :: nat
  assume "n < LENGTH(16)"
  then consider "n < 8" | "8 \<le> n" "n < 16"
    by fastforce
  then show "bit ?w n = bit v n"
    by cases (auto simp: bit_simps)
qed

lemma le32: "(ucast (ucast v :: u8) OR push_bit 8 (ucast (ucast (drop_bit 8 v) :: u8))
   OR push_bit 16 (ucast (ucast (drop_bit 16 v) :: u8)) OR push_bit 24 (ucast (ucast (drop_bit 24 v) :: u8))) = (v::u32)"
  (is "?w = v")
proof (rule bit_word_eqI)
  fix n :: nat
  assume "n < LENGTH(32)"
  then consider "n < 8" | "8 \<le> n" "n < 16" | "16 \<le> n" "n < 24" | "24 \<le> n" "n < 32"
    by fastforce
  then show "bit ?w n = bit v n"
    by cases (auto simp: bit_simps)
qed

lemma le64: "(ucast (ucast v :: u8) OR push_bit 8 (ucast (ucast (drop_bit 8 v) :: u8))
   OR push_bit 16 (ucast (ucast (drop_bit 16 v) :: u8)) OR push_bit 24 (ucast (ucast (drop_bit 24 v) :: u8))
   OR push_bit 32 (ucast (ucast (drop_bit 32 v) :: u8)) OR push_bit 40 (ucast (ucast (drop_bit 40 v) :: u8))
   OR push_bit 48 (ucast (ucast (drop_bit 48 v) :: u8)) OR push_bit 56 (ucast (ucast (drop_bit 56 v) :: u8))) = (v::u64)"
  (is "?w = v")
proof (rule bit_word_eqI)
  fix n :: nat
  assume "n < LENGTH(64)"
  then consider "n < 8" | "8 \<le> n" "n < 16" | "16 \<le> n" "n < 24" | "24 \<le> n" "n < 32"
    | "32 \<le> n" "n < 40" | "40 \<le> n" "n < 48" | "48 \<le> n" "n < 56" | "56 \<le> n" "n < 64"
    by fastforce
  then show "bit ?w n = bit v n"
    by cases (auto simp: bit_simps)
qed

lemma Uint16_PutUint16 [simp]: "Uint16 (PutUint16 v @ r) = Some v"
  by (simp add: PutUint16_def le16)
lemma Uint32_PutUint32 [simp]: "Uint32 (PutUint32 v @ r) = Some v"
  by (simp add: PutUint32_def le32)
lemma Uint64_PutUint64 [simp]: "Uint64 (PutUint64 v @ r) = Some v"
  by (simp add: PutUint64_def le64)

lemma length_PutUint [simp]:
  "length (PutUint16 a) = 2" "length (PutUint32 b) = 4" "length (PutUint64 c) = 8"
  by (simp_all add: PutUint16_def PutUint32_def PutUint64_def)


lemma Uint_PutUint [simp]:
  "Uint16 (PutUint16 a) = Some a" "Uint32 (PutUint32 b) = Some b" "Uint64 (PutUint64 c) = Some c"
  using Uint16_PutUint16 [of a "[]"] Uint32_PutUint32 [of b "[]"] Uint64_PutUint64 [of c "[]"]
  by simp_all

lemma length_put_at [simp]:
  "off + length p \<le> length b \<Longrightarrow> length (put_at b off p) = length b"
  by (simp add: put_at_def)

lemma slice_put_at_same:
  "off + length p \<le> length b \<Longrightarrow> hi = off + length p \<Longrightarrow> slice (put_at b off p) off hi = Some p"
  by (simp add: put_at_def slice_def)

lemma slice_put_at_other:
  "off + length p \<le> length b \<Longrightarrow> hi \<le> off \<or> off + length p \<le> lo \<Longrightarrow>
   slice (put_at b off p) lo hi = slice b lo hi"
  apply (simp add: put_at_def slice_def)
  apply (auto simp: take_drop min_def)
  done

lemma logInfo_roundtrip:
  "logInfo_UnmarshalBinary l0 (logInfo_MarshalBinary l) = Some l"
  apply (simp add: logInfo_MarshalBinary_def logInfo_UnmarshalBinary_def logHeaderSize_def Let_def
      slice_put_at_same slice_put_at_other)
  done


lemma slice_append_skip:
  "length a \<le> lo \<Longrightarrow> lo \<le> hi \<Longrightarrow> slice (a @ b) lo hi = slice b (lo - length a) (hi - length a)"
  by (auto simp: slice_def)

lemma slice_prefix:
  "hi = length a \<Longrightarrow> slice (a @ b) 0 hi = Some a"
  by (simp add: slice_def)

lemma copy_same_length: "length dst = length src \<Longrightarrow> copy dst src = src"
  by (simp add: copy_def)

lemma header_roundtrip:
  assumes "length (h_signature h) = 8" "length (h_signature h0) = 8"
  shows "header_UnmarshalBinary h0 (header_MarshalBinary h) = Some h"
proof -
  have sig: "copy (take 8 (replicate headerSize (0::u8))) (h_signature h) @ drop 8 (replicate headerSize 0)
        = put_at (replicate headerSize 0) 0 (h_signature h)"
    using assms(1) by (simp add: copy_same_length put_at_def headerSize_def)
  obtain fb0 fb1 fb2 where fb: "h_fb h = (fb0, fb1, fb2)"
    by (cases "h_fb h") auto
  show ?thesis
    using assms
    by (simp add: header_MarshalBinary_def header_UnmarshalBinary_def Let_def sig fb
        headerSize_def slice_put_at_same slice_put_at_other copy_same_length slice_prefix)
qed

lemma length_enc [simp]: "length (enc e) = 12"
  by (simp add: enc_def)

lemma length_concat_enc [simp]: "length (concat (map enc es)) = 12 * length es"
  by (induction es) auto

lemma put_at_two:
  "pos + 12 \<le> length dat \<Longrightarrow>
   put_at (put_at dat pos (PutUint64 a)) (pos + 8) (PutUint32 b)
     = take pos dat @ (PutUint64 a @ PutUint32 b) @ drop (pos + 12) dat"
  by (simp add: put_at_def min_def add.commute)

lemma marshal_entries_eq:
  "pos + 12 * length es \<le> length dat \<Longrightarrow>
   marshal_entries es dat pos =
     Some (take pos dat @ concat (map enc es) @ drop (pos + 12 * length es) dat, pos + 12 * length es)"
proof (induction es arbitrary: dat pos)
  case Nil
  then show ?case by simp
next
  case (Cons e es)
  let ?d = "take pos dat @ enc e @ drop (pos + 12) dat"
  have len: "length ?d = length dat" using Cons.prems by (simp add: min_def)
  have tk: "take (pos + 12) ?d = take pos dat @ enc e" using Cons.prems by (simp add: min_def)
  have dr: "drop (pos + 12 + 12 * length es) ?d = drop (pos + 12 + 12 * length es) dat"
    using Cons.prems by (simp add: min_def ac_simps)
  have "marshal_entries (e # es) dat pos = marshal_entries es ?d (pos + 12)"
    using Cons.prems by (simp add: put_at_two enc_def)
  also have "\<dots> = Some (take (pos + 12) ?d @ concat (map enc es) @ drop (pos + 12 + 12 * length es) ?d,
      pos + 12 + 12 * length es)"
    using Cons.prems len by (intro Cons.IH) simp
  finally have eq: "marshal_entries (e # es) dat pos =
      Some (take (pos + 12) ?d @ concat (map enc es) @ drop (pos + 12 + 12 * length es) ?d,
      pos + 12 + 12 * length es)" .
  show ?case
    unfolding eq tk dr by (simp add: ac_simps)
qed


lemma unmarshal_entries_eq:
  "length es0 = length es \<Longrightarrow> 12 < length rest \<Longrightarrow>
   unmarshal_entries es0 (concat (map enc es) @ rest) = Some (es, rest)"
proof (induction es0 es rule: list_induct2)
  case Nil
  then show ?case by simp
next
  case (Cons e0 es0 e es)
  have s1: "slice (enc e @ concat (map enc es) @ rest) 0 8 = Some (PutUint64 (seq e))"
    by (simp add: enc_def slice_prefix)
  have s2: "slice (enc e @ concat (map enc es) @ rest) 8 12 = Some (PutUint32 (expiresAt e))"
    by (simp add: enc_def slice_append_skip slice_prefix)
  show ?case
    using Cons by (auto simp: s1 s2)
qed

lemma winBlock_MarshalBinary_eq:
  assumes "12 * length (winBlock.entries w) + 26 \<le> unat blockSize"
  shows "winBlock_MarshalBinary blockSize w =
     Some (concat (map enc (winBlock.entries w)) @
       (PutUint64 (cutoff w) @ PutUint64 (topicHash w) @ PutUint64 (next w) @ PutUint16 (entryIdx w)
        @ replicate (unat blockSize - (12 * length (winBlock.entries w) + 26)) 0))"
proof -
  let ?n = "length (winBlock.entries w)"
  let ?z = "replicate (unat blockSize) (0::u8)"
  have m: "marshal_entries (winBlock.entries w) ?z 0 =
      Some (concat (map enc (winBlock.entries w)) @ replicate (unat blockSize - 12 * ?n) 0, 12 * ?n)"
    using assms by (subst marshal_entries_eq) simp_all
  show ?thesis
    using assms
    apply (simp add: winBlock_MarshalBinary_def m)
    apply (simp add: put_at_def min_def)
    done
qed


lemma winBlock_roundtrip:
  assumes "length (winBlock.entries w0) = length (winBlock.entries w)"
    and "12 * length (winBlock.entries w) + 26 \<le> unat blockSize"
  shows "\<exists>b. winBlock_MarshalBinary blockSize w = Some b \<and> length b = unat blockSize \<and>
     winBlock_UnmarshalBinary w0 b =
       Some (w\<lparr>dirty := dirty w0, leased := leased w0\<rparr>)"
proof -
  let ?rest = "PutUint64 (cutoff w) @ PutUint64 (topicHash w) @ PutUint64 (next w) @ PutUint16 (entryIdx w)
        @ replicate (unat blockSize - (12 * length (winBlock.entries w) + 26)) (0::u8)"
  have u: "unmarshal_entries (winBlock.entries w0) (concat (map enc (winBlock.entries w)) @ ?rest)
      = Some (winBlock.entries w, ?rest)"
    using assms(1) by (intro unmarshal_entries_eq) simp_all
  have s1: "slice ?rest 0 8 = Some (PutUint64 (cutoff w))"
    by (simp add: slice_prefix)
  have s2: "slice ?rest 8 16 = Some (PutUint64 (topicHash w))"
    by (simp add: slice_append_skip slice_prefix)
  have s3: "slice ?rest 16 24 = Some (PutUint64 (next w))"
    by (simp add: slice_append_skip slice_prefix)
  have s4: "slice ?rest 24 26 = Some (PutUint16 (entryIdx w))"
    by (simp add: slice_append_skip slice_prefix)
  have "winBlock_UnmarshalBinary w0 (concat (map enc (winBlock.entries w)) @ ?rest)
      = Some (w\<lparr>dirty := dirty w0, leased := leased w0\<rparr>)"
    unfolding winBlock_UnmarshalBinary_def u
    using s1 s2 s3 s4 by simp
  then show ?thesis
    using assms(2) by (simp add: winBlock_MarshalBinary_eq)
qed

text \<open>
  Claim C2. Unmarshalling the bytes that \<open>MarshalBinary\<close> produced gives back the value: for
  a window block (whose array has as many slots as the receiver's, in a block of at least
  \<open>12 * seqsPerWindowBlock + 26\<close> bytes) the entries, \<open>cutoff\<close>, \<open>topicHash\<close>, \<open>next\<close>
  and \<open>entryIdx\<close> are those of the original, while \<open>dirty\<close> and \<open>leased\<close>, which are not
  persisted, stay as the receiver had them; for the log info of the write-ahead log all six
  fields, and for its header the signature, \<open>version\<close>, \<open>seq\<close> and the three free blocks.
\<close>

theorem MarshalBinary_UnmarshalBinary_identity:
  "(length (winBlock.entries w0) = length (winBlock.entries w) \<and>
    12 * length (winBlock.entries w) + 26 \<le> unat blockSize \<longrightarrow>
      (\<exists>b. winBlock_MarshalBinary blockSize w = Some b \<and> length b = unat blockSize \<and>
         winBlock_UnmarshalBinary w0 b = Some (w\<lparr>dirty := dirty w0, leased := leased w0\<rparr>))) \<and>
   logInfo_UnmarshalBinary l0 (logInfo_MarshalBinary l) = Some l \<and>
   (length (h_signature h) = 8 \<and> length (h_signature h0) = 8 \<longrightarrow>
      header_UnmarshalBinary h0 (header_MarshalBinary h) = Some h)"
  using winBlock_roundtrip [of w0 w blockSize] logInfo_roundtrip [of l0 l] header_roundtrip [of h h0]
  by blast

theorem MarshalBinary_UnmarshalBinary_identity_witness:
  "(\<exists>b. winBlock_MarshalBinary 50 block1 = Some b \<and> length b = 50 \<and>
      winBlock_UnmarshalBinary (zero_winBlock 2) b = Some block1) \<and>
   logInfo_UnmarshalBinary logInfo0 (logInfo_MarshalBinary logInfo1) = Some logInfo1 \<and>
   header_UnmarshalBinary header0 (header_MarshalBinary header1) = Some header1"
  using MarshalBinary_UnmarshalBinary_identity [of "zero_winBlock 2" block1 50 logInfo0 logInfo1
      header1 header0]
  by (simp add: zero_winBlock_def block1_def header1_def header0_def)

section \<open>memdb\<close>

lemma unat_len32: "n < 2 ^ 32 \<Longrightarrow> unat (of_nat n :: u32) = n"
  by (simp add: unat_of_nat)

lemma stored_Get:
  assumes "stored c key d"
  shows "cache_Get c key = Inr (Some d)"
proof -
  define sz :: u32 where "sz = of_nat (length d + 4)"
  from assms obtain off where len: "length d + 4 < 2 ^ 32"
    and mk: "m c key = Some (int off)"
    and bound: "off + 4 + length d \<le> length (buf (data c))"
    and bytes: "take (4 + length d) (drop off (buf (data c))) = PutUint32 sz @ d"
    by (auto simp: stored_def sz_def)
  have "take 4 (take (4 + length d) (drop off (buf (data c)))) = PutUint32 sz"
    by (simp only: bytes) simp
  then have t4: "take 4 (drop off (buf (data c))) = PutUint32 sz"
    by (simp add: min_def)
  have r1: "readRaw (data c) (int off) 4 = Inr (PutUint32 sz)"
    using bound by (simp add: readRaw_def dataTable_size_def t4)
  have u: "unat sz = length d + 4"
    unfolding sz_def using len by (rule unat_len32)
  have r2: "readRaw (data c) (int off) sz = Inr (PutUint32 sz @ d)"
    using bound bytes by (simp add: readRaw_def dataTable_size_def u add.commute)
  show ?thesis
    using Uint32_PutUint32 [of sz "[]"]
    by (simp add: cache_Get_def mk r1 r2 slice_def)
qed

lemma extends_refl: "extends b b"
  by (simp add: extends_def)

lemma extends_append: "extends b (b @ z)"
  by (simp add: extends_def)

lemma extends_put_at:
  "extends b b' \<Longrightarrow> length b \<le> off \<Longrightarrow> off + length p \<le> length b' \<Longrightarrow> extends b (put_at b' off p)"
  by (auto simp: extends_def put_at_def min_def)

lemma extends_take_drop:
  assumes "extends b b'" "o' + n \<le> length b"
  shows "take n (drop o' b') = take n (drop o' b)"
proof -
  have "take n (drop o' b) = take n (drop o' (take (length b) b'))"
    using assms by (simp add: extends_def)
  also have "\<dots> = take n (drop o' b')"
    using assms by (simp add: drop_take min_def)
  finally show ?thesis by simp
qed

lemma writeAt_Inr:
  "writeAt t p off = Inr t' \<Longrightarrow>
     0 \<le> off \<and> nat off + length p \<le> length (buf t) \<and> buf t' = put_at (buf t) (nat off) p"
  by (auto simp: writeAt_def dataTable_size_def split: if_splits)

lemma cache_Set_frame:
  assumes "cache_Set c key' d' = (e, c')"
  shows "extends (buf (data c)) (buf (data c')) \<and> (\<forall>x. x \<noteq> key' \<longrightarrow> m c' x = m c x)"
proof -
  define sz :: u32 where "sz = of_nat (length d' + 4)"
  define t1 where "t1 = (data c)\<lparr>buf := buf (data c) @ replicate (unat sz) 0\<rparr>"
  define off where "off = length (buf (data c))"
  have al: "allocate (data c) sz = Inr (int off, t1)"
    by (simp add: allocate_def dataTable_size_def t1_def off_def)
  have e1: "extends (buf (data c)) (buf t1)"
    by (simp add: t1_def extends_append)
  have cs: "cache_Set c key' d' =
      (case writeAt t1 (PutUint32 sz) (int off) of
         Inl err \<Rightarrow> (Some err, c\<lparr>data := t1\<rparr>)
       | Inr t2 \<Rightarrow>
          (case writeAt t2 d' (int off + 4) of
             Inl err \<Rightarrow> (Some err, c\<lparr>data := t2\<rparr>)
           | Inr t3 \<Rightarrow> (None, c\<lparr>data := t3, m := (m c)(key' \<mapsto> int off)\<rparr>)))"
    unfolding cache_Set_def sz_def [symmetric] al by (simp add: Let_def)
  show ?thesis
  proof (cases "writeAt t1 (PutUint32 sz) (int off)")
    case (Inl err)
    with assms e1 show ?thesis
      unfolding cs by auto
  next
    case (Inr t2)
    from writeAt_Inr [OF Inr] have b2: "buf t2 = put_at (buf t1) off (PutUint32 sz)"
      and l2: "off + 4 \<le> length (buf t1)" by auto
    have e2: "extends (buf (data c)) (buf t2)"
      unfolding b2 using e1 l2 by (intro extends_put_at) (simp_all add: off_def)
    show ?thesis
    proof (cases "writeAt t2 d' (int off + 4)")
      case (Inl err)
      with assms Inr e2 show ?thesis
        unfolding cs by auto
    next
      case r3: (Inr t3)
      from writeAt_Inr [OF r3] have b3: "buf t3 = put_at (buf t2) (off + 4) d'"
        and l3: "off + 4 + length d' \<le> length (buf t2)"
        by (auto simp: nat_add_distrib)
      have e3: "extends (buf (data c)) (buf t3)"
        unfolding b3 using e2 l3 by (intro extends_put_at) (simp_all add: off_def)
      from assms Inr r3 e3 show ?thesis
        unfolding cs by auto
    qed
  qed
qed

lemma stored_frame:
  assumes "stored c key d" "extends (buf (data c)) (buf (data c'))" "m c' key = m c key"
  shows "stored c' key d"
proof -
  from assms(1) obtain off where len: "length d + 4 < 2 ^ 32"
    and mk: "m c key = Some (int off)"
    and bound: "off + 4 + length d \<le> length (buf (data c))"
    and bytes: "take (4 + length d) (drop off (buf (data c))) = PutUint32 (of_nat (length d + 4)) @ d"
    by (auto simp: stored_def)
  have "take (4 + length d) (drop off (buf (data c'))) = take (4 + length d) (drop off (buf (data c)))"
    using assms(2) bound by (intro extends_take_drop) simp_all
  moreover have "off + 4 + length d \<le> length (buf (data c'))"
    using assms(2) bound by (simp add: extends_def)
  ultimately show ?thesis
    unfolding stored_def using len mk bytes assms(3) by (intro conjI exI [of _ off]) simp_all
qed

lemma stored_Set_other:
  "stored c key d \<Longrightarrow> key' \<noteq> key \<Longrightarrow> stored (snd (cache_Set c key' d')) key d"
  using cache_Set_frame [of c key' d' "fst (cache_Set c key' d')" "snd (cache_Set c key' d')"]
  by (auto intro: stored_frame)

lemma stored_Remove_other:
  "stored c key d \<Longrightarrow> key' \<noteq> key \<Longrightarrow> stored (cache_Remove c key') key d"
  by (auto simp: cache_Remove_def stored_def split: option.splits)


lemma cache_Set_stored:
  assumes "cache_Set c key d = (None, c')"
  shows "stored c' key d"
proof -
  define sz :: u32 where "sz = of_nat (length d + 4)"
  define t1 where "t1 = (data c)\<lparr>buf := buf (data c) @ replicate (unat sz) 0\<rparr>"
  define off where "off = length (buf (data c))"
  have al: "allocate (data c) sz = Inr (int off, t1)"
    by (simp add: allocate_def dataTable_size_def t1_def off_def)
  have cs: "cache_Set c key d =
      (case writeAt t1 (PutUint32 sz) (int off) of
         Inl err \<Rightarrow> (Some err, c\<lparr>data := t1\<rparr>)
       | Inr t2 \<Rightarrow>
          (case writeAt t2 d (int off + 4) of
             Inl err \<Rightarrow> (Some err, c\<lparr>data := t2\<rparr>)
           | Inr t3 \<Rightarrow> (None, c\<lparr>data := t3, m := (m c)(key \<mapsto> int off)\<rparr>)))"
    unfolding cache_Set_def sz_def [symmetric] al by (simp add: Let_def)
  from assms obtain t2 t3 where w2: "writeAt t1 (PutUint32 sz) (int off) = Inr t2"
    and w3: "writeAt t2 d (int off + 4) = Inr t3"
    and c': "c' = c\<lparr>data := t3, m := (m c)(key \<mapsto> int off)\<rparr>"
    unfolding cs by (auto split: sum.splits)
  from writeAt_Inr [OF w2] have b2: "buf t2 = put_at (buf t1) off (PutUint32 sz)"
    and l2: "off + 4 \<le> length (buf t1)" by auto
  from writeAt_Inr [OF w3] have b3: "buf t3 = put_at (buf t2) (off + 4) d"
    and l3: "off + 4 + length d \<le> length (buf t2)"
    by (auto simp: nat_add_distrib)
  have len2: "length (buf t2) = length (buf t1)"
    unfolding b2 using l2 by (simp add: put_at_def)
  have len1: "length (buf t1) = off + unat sz"
    by (simp add: t1_def off_def)
  have ge: "length d + 4 \<le> unat sz"
    using l3 len2 len1 by simp
  have us: "unat sz = (length d + 4) mod 2 ^ 32"
    unfolding sz_def unat_of_nat by simp
  have "unat sz < 2 ^ 32"
    unfolding us by simp
  with ge have small: "length d + 4 < 2 ^ 32"
    by simp
  then have usz: "unat sz = length d + 4"
    unfolding us by simp
  have "buf t3 = buf (data c) @ PutUint32 sz @ d"
    unfolding b3 b2 by (simp add: t1_def off_def put_at_def usz)
  then have "take (4 + length d) (drop off (buf t3)) = PutUint32 sz @ d"
    by (simp add: off_def)
  moreover have "off + 4 + length d \<le> length (buf t3)"
    unfolding b3 using l3 by (simp add: put_at_def)
  ultimately show ?thesis
    unfolding stored_def c' sz_def using small by (intro conjI exI [of _ off]) simp_all
qed

lemma getCache_Some:
  "getCache db' blockID = Some c \<longleftrightarrow>
     consistent db' blockID < length (blockCache db') \<and> c = blockCache db' ! consistent db' blockID"
  by (auto simp: getCache_def Let_def)

lemma getCache_None:
  "getCache db' blockID = None \<longleftrightarrow> \<not> consistent db' blockID < length (blockCache db')"
  by (auto simp: getCache_def Let_def)

lemma holds_Get: "holds db0 db' blockID key d \<Longrightarrow> DB_Get db' blockID key = Inr (Some d)"
  by (simp add: holds_def DB_Get_def getCache_def stored_Get)

lemma holds_Set:
  assumes "fst (DB_Set db0 blockID key d) = None"
  shows "holds db0 (snd (DB_Set db0 blockID key d)) blockID key d"
proof (cases "getCache db0 blockID")
  case None
  with assms show ?thesis by (simp add: DB_Set_def)
next
  case (Some c)
  obtain e c' where cs: "cache_Set c key d = (e, c')" by (cases "cache_Set c key d") auto
  with assms Some have "e = None" by (simp add: DB_Set_def)
  with cs have st: "stored c' key d" by (simp add: cache_Set_stored)
  from Some have lt: "consistent db0 blockID < length (blockCache db0)"
    by (simp add: getCache_Some)
  show ?thesis
    using st lt by (simp add: DB_Set_def Some cs holds_def setCache_def)
qed

lemma holds_apply_op:
  assumes "holds db0 db' blockID key d" "\<not> touches db0 blockID key op"
  shows "holds db0 (apply_op db' op) blockID key d"
proof (cases op)
  case (OpSet b' k' d')
  show ?thesis
  proof (cases "getCache db' b'")
    case None
    with assms OpSet show ?thesis by (simp add: DB_Set_def)
  next
    case (Some c)
    then have c: "c = blockCache db' ! consistent db' b'" and lt: "consistent db' b' < length (blockCache db')"
      by (simp_all add: getCache_Some)
    show ?thesis
    proof (cases "consistent db0 b' = consistent db0 blockID")
      case True
      with assms OpSet have "k' \<noteq> key" by simp
      with assms(1) True c have "stored (snd (cache_Set c k' d')) key d"
        by (simp add: holds_def stored_Set_other)
      with assms(1) True Some OpSet show ?thesis
        by (simp add: DB_Set_def holds_def setCache_def split_beta)
    next
      case False
      with assms(1) Some OpSet show ?thesis
        by (simp add: DB_Set_def holds_def setCache_def split_beta)
    qed
  qed
next
  case (OpRemove b' k')
  show ?thesis
  proof (cases "getCache db' b'")
    case None
    with assms OpRemove show ?thesis by (simp add: DB_Remove_def)
  next
    case (Some c)
    then have c: "c = blockCache db' ! consistent db' b'"
      by (simp_all add: getCache_Some)
    show ?thesis
    proof (cases "consistent db0 b' = consistent db0 blockID")
      case True
      with assms OpRemove have "k' \<noteq> key" by simp
      with assms(1) True c have "stored (cache_Remove c k') key d"
        by (simp add: holds_def stored_Remove_other)
      with assms(1) True Some OpRemove show ?thesis
        by (simp add: DB_Remove_def holds_def setCache_def)
    next
      case False
      with assms(1) Some OpRemove show ?thesis
        by (simp add: DB_Remove_def holds_def setCache_def)
    qed
  qed
qed

lemma holds_foldl:
  "holds db0 db' blockID key d \<Longrightarrow> \<forall>op \<in> set ops. \<not> touches db0 blockID key op \<Longrightarrow>
   holds db0 (foldl apply_op db' ops) blockID key d"
  by (induction ops arbitrary: db') (simp_all add: holds_apply_op)

text \<open>
  Claim C1. If \<open>Set(blockID, key, data)\<close> succeeds, a later \<open>Get(blockID, key)\<close> returns
  exactly \<open>data\<close>, whatever calls of \<open>Set\<close> and \<open>Remove\<close> come in between, as long as none
  of them addresses the same key in the same shard (the shrinker is not among these calls).
  \<open>Set\<close> stores the length \<open>len(data) + 4\<close> in four little-endian bytes followed by the
  data; \<open>Get\<close> reads the length, reads that many bytes and drops the first four.
\<close>

theorem Set_then_Get:
  assumes "fst (DB_Set db0 blockID key d) = None"
    and "\<forall>op \<in> set ops. \<not> touches db0 blockID key op"
  shows "DB_Get (foldl apply_op (snd (DB_Set db0 blockID key d)) ops) blockID key = Inr (Some d)"
  using holds_Get [OF holds_foldl [OF holds_Set [OF assms(1)] assms(2)]] .

theorem Set_then_Get_witness:
  "fst (DB_Set db1 1 5 [1, 2, 3]) = None \<and>
   DB_Get (foldl apply_op (snd (DB_Set db1 1 5 [1, 2, 3])) [OpSet 33 6 [9], OpRemove 2 5, OpSet 1 7 []]) 1 5
     = Inr (Some [1, 2, 3])"
proof -
  have a: "fst (DB_Set db1 1 5 [1, 2, 3]) = None"
    by (simp add: db1_def DB_Set_def getCache_def nShards_def newBlockCache_def cache_Set_def
     allocate_def writeAt_def dataTable_size_def PutUint32_def put_at_def setCache_def Let_def)
  have b: "\<forall>op \<in> set [OpSet 33 6 [9], OpRemove 2 5, OpSet 1 7 []]. \<not> touches db1 1 5 op"
    by (simp add: db1_def nShards_def)
  from a Set_then_Get [OF a b] show ?thesis by blast
qed

lemma readRaw_not_deleted: "readRaw t off sz \<noteq> Inl ErrEntryDeleted"
  by (simp add: readRaw_def)

lemma cache_Get_deleted_iff: "cache_Get c key = Inl ErrEntryDeleted \<longleftrightarrow> m c key = Some (-1)"
proof (cases "m c key")
  case None
  then show ?thesis by (simp add: cache_Get_def)
next
  case (Some off)
  show ?thesis
  proof (cases "off = -1")
    case True
    with Some show ?thesis by (simp add: cache_Get_def)
  next
    case False
    with Some readRaw_not_deleted [of "data c" off] show ?thesis
      by (auto simp: cache_Get_def readRaw_def split: sum.splits option.splits)
  qed
qed

text \<open>
  Claim C4. \<open>Get(blockID, key)\<close> returns the entry-deleted error exactly when the offset
  stored for the key is the tombstone \<open>-1\<close>; \<open>Remove\<close> installs the tombstone for a key that
  is present, after which \<open>Get\<close> returns that error. For a key that was never set, \<open>Get\<close>
  returns nil data and a nil error, and \<open>Remove\<close> returns nil and leaves the DB as it was.
\<close>

theorem Get_deleted_iff_tombstone:
  assumes "getCache db0 blockID = Some c"
  shows "(DB_Get db0 blockID key = Inl ErrEntryDeleted \<longleftrightarrow> m c key = Some (-1)) \<and>
    (m c key = None \<longrightarrow>
       DB_Get db0 blockID key = Inr None \<and> DB_Remove db0 blockID key = (None, db0)) \<and>
    (m c key \<noteq> None \<longrightarrow>
       fst (DB_Remove db0 blockID key) = None \<and>
       getCache (snd (DB_Remove db0 blockID key)) blockID = Some (c\<lparr>m := (m c)(key \<mapsto> -1)\<rparr>) \<and>
       DB_Get (snd (DB_Remove db0 blockID key)) blockID key = Inl ErrEntryDeleted)"
proof -
  from assms have lt: "consistent db0 blockID < length (blockCache db0)"
    and c: "blockCache db0 ! consistent db0 blockID = c"
    by (auto simp: getCache_def Let_def split: if_splits)
  have 1: "DB_Get db0 blockID key = Inl ErrEntryDeleted \<longleftrightarrow> m c key = Some (-1)"
    by (simp add: DB_Get_def assms cache_Get_deleted_iff)
  have 2: "DB_Get db0 blockID key = Inr None" if "m c key = None"
    using that by (simp add: DB_Get_def assms cache_Get_def)
  have "(blockCache db0)[consistent db0 blockID := c] = blockCache db0"
    using c by (metis list_update_id)
  then have 3: "DB_Remove db0 blockID key = (None, db0)" if "m c key = None"
    using that by (simp add: DB_Remove_def assms cache_Remove_def setCache_def)
  have 4: "fst (DB_Remove db0 blockID key) = None"
    by (simp add: DB_Remove_def assms)
  have 5: "getCache (snd (DB_Remove db0 blockID key)) blockID = Some (c\<lparr>m := (m c)(key \<mapsto> -1)\<rparr>)"
    if "m c key \<noteq> None"
    using that lt c by (auto simp: DB_Remove_def assms cache_Remove_def setCache_def getCache_def Let_def)
  have 6: "DB_Get (snd (DB_Remove db0 blockID key)) blockID key = Inl ErrEntryDeleted"
    if "m c key \<noteq> None"
    unfolding DB_Get_def 5 [OF that] by (simp add: cache_Get_deleted_iff)
  from 1 2 3 4 5 6 show ?thesis by blast
qed

theorem Get_deleted_iff_tombstone_witness:
  "getCache db2 3 = Some \<lparr>data = \<lparr>buf = [5, 0, 0, 0, 42]\<rparr>, freeOffset = 0, m = [7 \<mapsto> 0]\<rparr> \<and>
   DB_Get db2 3 8 = Inr None \<and> DB_Remove db2 3 8 = (None, db2) \<and>
   DB_Get db2 3 7 \<noteq> Inl ErrEntryDeleted \<and>
   DB_Get (snd (DB_Remove db2 3 7)) 3 7 = Inl ErrEntryDeleted"
proof -
  let ?c = "\<lparr>data = \<lparr>buf = [5, 0, 0, 0, 42]\<rparr>, freeOffset = 0, m = [7 \<mapsto> (0::int)]\<rparr>"
  have g: "getCache db2 3 = Some ?c"
    by (simp add: db2_def getCache_def nShards_def newBlockCache_def)
  from Get_deleted_iff_tombstone [OF g, of 8] Get_deleted_iff_tombstone [OF g, of 7] g
  show ?thesis by simp
qed

section \<open>The time-window bucket\<close>

lemma foldl_add_frozen:
  "freezed w \<Longrightarrow>
   foldl (\<lambda>w (h, e). timeWindow_add w h e) w as = w\<lparr>friezedEntries := arrived (friezedEntries w) as\<rparr>"
proof (induction as arbitrary: w)
  case Nil
  then show ?case by simp
next
  case (Cons a as)
  obtain h e where a: "a = (h, e)" by (cases a)
  let ?g = "\<lambda>w (h, e). timeWindow_add w h e"
  let ?F = "(friezedEntries w)(h \<mapsto> (case friezedEntries w h of None \<Rightarrow> [e] | Some es \<Rightarrow> es @ [e]))"
  let ?w = "w\<lparr>friezedEntries := ?F\<rparr>"
  have s1: "timeWindow_add w h e = ?w"
    using Cons.prems by (simp add: timeWindow_add_def)
  have fz: "freezed ?w" using Cons.prems by simp
  have "foldl ?g w (a # as) = foldl ?g ?w as"
    by (simp only: a foldl_Cons prod.case s1)
  also have "\<dots> = ?w\<lparr>friezedEntries := arrived (friezedEntries ?w) as\<rparr>"
    by (rule Cons.IH [OF fz])
  also have "\<dots> = w\<lparr>friezedEntries := arrived ?F as\<rparr>"
    by simp
  also have "arrived ?F as = arrived (friezedEntries w) (a # as)"
    by (simp only: a arrived.simps)
  finally show ?case .
qed

lemma foreachTimeWindow_loop_nth:
  "i < length window \<Longrightarrow>
   \<exists>st'. snd (foreachTimeWindow_loop frz f arr j st window) ! i
      = snd (foreachTimeWindow_shard frz f (arr (j + i)) st' (window ! i))"
proof (induction window arbitrary: i j st)
  case Nil
  then show ?case by simp
next
  case (Cons wb wbs)
  obtain st1 wb1 where r: "foreachTimeWindow_shard frz f (arr j) st wb = (st1, wb1)"
    by (cases "foreachTimeWindow_shard frz f (arr j) st wb")
  obtain st2 wbs2 where l: "foreachTimeWindow_loop frz f arr (Suc j) st1 wbs = (st2, wbs2)"
    by (cases "foreachTimeWindow_loop frz f arr (Suc j) st1 wbs")
  show ?case
  proof (cases i)
    case 0
    have "snd (foreachTimeWindow_loop frz f arr j st (wb # wbs)) ! i
        = snd (foreachTimeWindow_shard frz f (arr (j + i)) st ((wb # wbs) ! i))"
      using 0 r l by simp
    then show ?thesis ..
  next
    case (Suc i')
    with Cons.prems have "i' < length wbs" by simp
    from Cons.IH [OF this, of "Suc j" st1] obtain st' where
      "wbs2 ! i' = snd (foreachTimeWindow_shard frz f (arr (Suc j + i')) st' (wbs ! i'))"
      using l by auto
    then have "snd (foreachTimeWindow_loop frz f arr j st (wb # wbs)) ! i
        = snd (foreachTimeWindow_shard frz f (arr (j + i)) st' ((wb # wbs) ! i))"
      using Suc r l by simp
    then show ?thesis ..
  qed
qed

lemma foreachTimeWindow_shard_freeze:
  assumes "f (timeWindow.entries wb) s = ((stop, err1), s')"
  shows "(let r = foreachTimeWindow_shard True f arrivals (err, s) wb;
              fr = arrived (friezedEntries wb) arrivals
          in freezed (snd r) = False \<and> friezedEntries (snd r) = Map.empty \<and>
             (if stop \<or> err1 \<noteq> None
              then fst r = (err1, s') \<and>
                   (\<forall>h. timeWindow.entries (snd r) h =
                      (case fr h of
                         None \<Rightarrow> timeWindow.entries wb h
                       | Some fs \<Rightarrow>
                           Some ((case timeWindow.entries wb h of None \<Rightarrow> [] | Some es \<Rightarrow> es) @ fs)))
              else fst r = (err, s') \<and> timeWindow.entries (snd r) = fr))"
proof -
  have fo: "foldl (\<lambda>w (h, e). timeWindow_add w h e) (wb\<lparr>freezed := True\<rparr>) arrivals
      = wb\<lparr>freezed := True, friezedEntries := arrived (friezedEntries wb) arrivals\<rparr>"
    using foldl_add_frozen [of "wb\<lparr>freezed := True\<rparr>" arrivals] by simp
  show ?thesis
    unfolding foreachTimeWindow_shard_def Let_def
    using assms
    by (auto simp: fo unFreeze_def reset_def freeze_def fun_eq_iff split: option.splits)
qed


text \<open>
  Claim C9. In \<open>foreachTimeWindow\<close> with \<open>freeze = true\<close>, every shard of the result is the
  outcome of one round on that shard, and a round behaves as follows. If the callback on the
  shard's snapshot succeeds, \<open>entries\<close> is reset and then holds exactly the entries that
  arrived in \<open>friezedEntries\<close> during the freeze. If the callback returns an error or asks
  to stop, \<open>entries\<close> is not reset: the entries of the snapshot remain, with the frozen
  entries appended per topic hash. In both cases the shard is unfrozen: the flag is cleared
  and \<open>friezedEntries\<close> is empty.
\<close>

theorem foreachTimeWindow_freeze:
  "(i < length window \<longrightarrow>
      (\<exists>st'. snd (foreachTimeWindow True f arr s0 window) ! i
          = snd (foreachTimeWindow_shard True f (arr i) st' (window ! i)))) \<and>
   (f (timeWindow.entries wb) s = ((stop, err1), s') \<longrightarrow>
     (let r = foreachTimeWindow_shard True f arrivals (err, s) wb;
          fr = arrived (friezedEntries wb) arrivals
      in freezed (snd r) = False \<and> friezedEntries (snd r) = Map.empty \<and>
         (if stop \<or> err1 \<noteq> None
          then fst r = (err1, s') \<and>
               (\<forall>h. timeWindow.entries (snd r) h =
                  (case fr h of
                     None \<Rightarrow> timeWindow.entries wb h
                   | Some fs \<Rightarrow>
                       Some ((case timeWindow.entries wb h of None \<Rightarrow> [] | Some es \<Rightarrow> es) @ fs)))
          else fst r = (err, s') \<and> timeWindow.entries (snd r) = fr)))"
  using foreachTimeWindow_loop_nth [of i window True f arr 0 "(None, s0)"]
    foreachTimeWindow_shard_freeze [of f wb s stop err1 s' arrivals err]
  by (simp add: foreachTimeWindow_def)

theorem foreachTimeWindow_freeze_witness:
  "(let r = foreachTimeWindow_shard True callback1 [(7, \<lparr>seq = 8, expiresAt = 0\<rparr>)] (None, 0) tw2
    in freezed (snd r) = False \<and> friezedEntries (snd r) = Map.empty \<and>
       fst r = (Some ErrIO, 1) \<and>
       timeWindow.entries (snd r) 9 = Some [\<lparr>seq = 6, expiresAt = 0\<rparr>] \<and>
       timeWindow.entries (snd r) 7 = Some [\<lparr>seq = 8, expiresAt = 0\<rparr>]) \<and>
   (\<exists>st'. snd (foreachTimeWindow True callback1 (\<lambda>i. []) 0 [tw1, tw2]) ! 1
          = snd (foreachTimeWindow_shard True callback1 [] st' ([tw1, tw2] ! 1)))"
proof -
  have c: "callback1 (timeWindow.entries tw2) 0 = ((True, Some ErrIO), 1)"
    by (simp add: callback1_def tw2_def)
  have n: "(1::nat) < length [tw1, tw2]" by simp
  from foreachTimeWindow_freeze [of 1 "[tw1, tw2]" callback1 "\<lambda>i. []" 0 tw2 0 True "Some ErrIO" 1
      "[(7, \<lparr>seq = 8, expiresAt = 0\<rparr>)]" None] c n
  show ?thesis
    by (simp add: Let_def tw2_def)
qed

lemma scan_eq:
  "scan now s (acc, cnt) =
     (acc @ filter (\<lambda>e. \<not> isExpired now e) s, cnt + int (length (filter (isExpired now) s)))"
  by (induction s arbitrary: acc cnt) auto

lemma scan_length:
  "int (length (fst (scan now s (acc, cnt)))) + snd (scan now s (acc, cnt))
     = int (length acc) + cnt + int (length s)"
proof -
  have "length (filter (\<lambda>e. \<not> isExpired now e) s) + length (filter (isExpired now) s) = length s"
    using sum_length_filter_compl [of "isExpired now" s] by simp
  then show ?thesis
    by (auto simp: scan_eq)
qed

lemma scan_count_nonneg: "cnt \<le> snd (scan now s (acc, cnt))"
  by (simp add: scan_eq)

lemma scan_length_le: "length (fst (scan now s (acc, cnt))) \<le> length acc + length s"
  by (simp add: scan_eq)

lemma from_end_Some:
  "0 \<le> l \<Longrightarrow> l \<le> int (length s) \<Longrightarrow>
   \<exists>r k. from_end s l = Some r \<and> int (length r) = l \<and> r = drop k s"
  by (auto simp: from_end_def)

lemma ilookup_frozen_ok:
  assumes "0 \<le> limit"
  shows "\<exists>ws ec l k. ilookup_frozen now fz limit = Inr (ws, ec, l) \<and>
     int (length ws) + ec = l \<and> 0 \<le> ec \<and> l \<le> limit \<and>
     ws = filter (\<lambda>e. \<not> isExpired now e) (drop k fz)"
proof (cases "0 < length fz")
  case False
  with assms show ?thesis by (simp add: ilookup_frozen_def)
next
  case True
  define l1 where "l1 = (if int (length fz) < limit then int (length fz) else limit)"
  have "0 \<le> l1" "l1 \<le> int (length fz)" "l1 \<le> limit"
    using assms by (auto simp: l1_def)
  with from_end_Some [of l1 fz] obtain s k where
    s: "from_end fz l1 = Some s" "int (length s) = l1" "s = drop k fz"
    by blast
  obtain ws ec where sc: "scan now s ([], 0) = (ws, ec)"
    by (cases "scan now s ([], 0)") auto
  with scan_length [of now s "[]" 0] scan_count_nonneg [of 0 now s "[]"] s
  have "int (length ws) + ec = l1" "0 \<le> ec" by auto
  moreover have "ws = filter (\<lambda>e. \<not> isExpired now e) (drop k fz)"
    using sc s(3) by (simp add: scan_eq)
  moreover have "ilookup_frozen now fz limit = Inr (ws, ec, l1)"
    unfolding ilookup_frozen_def Let_def l1_def [symmetric] using True s sc by simp
  ultimately show ?thesis
    using \<open>l1 \<le> limit\<close> by blast
qed

lemma ilookup_entries_ok:
  assumes "int (length ws) + ec = l" "0 \<le> ec" "l \<le> limit"
  shows "\<exists>r k. ilookup_entries now en limit (ws, ec, l) = Inr r \<and> int (length r) \<le> limit \<and>
     r = ws @ filter (\<lambda>e. \<not> isExpired now e) (drop k en)"
proof (cases "0 < length en")
  case False
  with assms show ?thesis by (simp add: ilookup_entries_def)
next
  case True
  define l2 where "l2 = limit + ec - l"
  define l2' where "l2' = (if int (length en) < l2 then int (length en) else l2)"
  have "0 \<le> l2" using assms by (simp add: l2_def)
  then have "0 \<le> l2'" "l2' \<le> int (length en)" "l2' \<le> l2"
    by (auto simp: l2'_def)
  with from_end_Some [of l2' en] obtain s k where
    s: "from_end en l2' = Some s" "int (length s) = l2'" "s = drop k en"
    by blast
  have "int (length (fst (scan now s (ws, ec)))) \<le> int (length ws) + l2'"
    using scan_length_le [of now s ws ec] s by linarith
  also have "\<dots> \<le> limit"
    using assms \<open>l2' \<le> l2\<close> by (simp add: l2_def)
  finally have "int (length (fst (scan now s (ws, ec)))) \<le> limit" .
  moreover have "fst (scan now s (ws, ec)) = ws @ filter (\<lambda>e. \<not> isExpired now e) (drop k en)"
    using s(3) by (simp add: scan_eq)
  moreover have "ilookup_entries now en limit (ws, ec, l) = Inr (fst (scan now s (ws, ec)))"
    unfolding ilookup_entries_def Let_def prod.case l2_def [symmetric] l2'_def [symmetric]
    using True s by simp
  ultimately show ?thesis by metis
qed

text \<open>
  Claim C10. For every topic hash and every \<open>limit \<ge> 0\<close>, \<open>ilookup\<close> returns (it does not
  panic), and what it returns, from its two passes together, is at most \<open>limit\<close> entries,
  however many of the scanned entries are expired: the live entries of a suffix of
  \<open>friezedEntries[topicHash]\<close>, followed by the live entries of a suffix of
  \<open>entries[topicHash]\<close>.
\<close>

theorem ilookup_at_most_limit:
  assumes "0 \<le> limit"
  shows "\<exists>r k1 k2. ilookup now wb h limit = Inr r \<and> int (length r) \<le> limit \<and>
     r = filter (\<lambda>e. \<not> isExpired now e)
           (drop k1 (case friezedEntries wb h of None \<Rightarrow> [] | Some es \<Rightarrow> es)) @
         filter (\<lambda>e. \<not> isExpired now e)
           (drop k2 (case timeWindow.entries wb h of None \<Rightarrow> [] | Some es \<Rightarrow> es))"
proof -
  from ilookup_frozen_ok [OF assms] obtain ws ec l k1
    where f: "ilookup_frozen now (case friezedEntries wb h of None \<Rightarrow> [] | Some es \<Rightarrow> es) limit
        = Inr (ws, ec, l)" "int (length ws) + ec = l" "0 \<le> ec" "l \<le> limit"
      "ws = filter (\<lambda>e. \<not> isExpired now e)
              (drop k1 (case friezedEntries wb h of None \<Rightarrow> [] | Some es \<Rightarrow> es))"
    by blast
  from ilookup_entries_ok [OF f(2,3,4), of now
      "case timeWindow.entries wb h of None \<Rightarrow> [] | Some es \<Rightarrow> es"]
  obtain r k2 where
    e: "ilookup_entries now (case timeWindow.entries wb h of None \<Rightarrow> [] | Some es \<Rightarrow> es) limit
          (ws, ec, l) = Inr r" "int (length r) \<le> limit"
      "r = ws @ filter (\<lambda>e. \<not> isExpired now e)
              (drop k2 (case timeWindow.entries wb h of None \<Rightarrow> [] | Some es \<Rightarrow> es))"
    by blast
  have "ilookup now wb h limit = Inr r"
    using f(1) e(1) by (simp add: ilookup_def)
  with e(2,3) f(5) show ?thesis by blast
qed

theorem ilookup_at_most_limit_witness:
  "\<exists>r. ilookup 100 tw1 7 2 = Inr r \<and> int (length r) \<le> 2"
  using ilookup_at_most_limit [of 2 100 tw1 7] by auto

section \<open>The topic trie\<close>





lemma addUnique_others:
  "x \<in> set ts \<Longrightarrow> hash x \<noteq> hash v \<Longrightarrow> x \<in> set (snd (addUnique ts v))"
  by (induction ts) (auto simp: split_beta)






section \<open>The window writer\<close>

lemma append_entry_skip:
  "seq we = 0 \<or> seq we \<in> set (map seq (winBlock.entries w)) \<Longrightarrow>
   append_entry blockSize n now (wb, winIdx, w) we = Inr (wb, winIdx, w)"
  by (auto simp: append_entry_def)

lemma append_entries_skip:
  "\<forall>we \<in> set wes. seq we = 0 \<or> seq we \<in> set (map seq (winBlock.entries w)) \<Longrightarrow>
   append_entries blockSize n clock j (wb, winIdx, w) wes = Inr (wb, winIdx, w)"
proof (induction wes arbitrary: j)
  case Nil
  then show ?case by simp
next
  case (Cons we wes)
  then have "append_entry blockSize n (clock j) (wb, winIdx, w) we = Inr (wb, winIdx, w)"
    by (intro append_entry_skip) simp
  with Cons show ?case by simp
qed

lemma append_start_cached:
  "off \<noteq> 0 \<Longrightarrow> winBlocks wb (word_of_int (sint off sdiv sint (ucast blockSize :: i64))) = Some w \<Longrightarrow>
   append_start blockSize n wb off = Inr (wb, word_of_int (sint off sdiv sint (ucast blockSize :: i64)), w)"
  by (simp add: append_start_def)











lemma idx62: "(word_of_int (sint (62 :: i64) sdiv sint (ucast (62 :: u32) :: i64)) :: i32) = 1"
  by (simp add: signed_divide_int_def)



text \<open>
  Claim C6. An entry whose \<open>seq\<close> already occurs in the array of the current block, or whose
  \<open>seq\<close> is 0, is skipped: the round of the loop returns no error and leaves the writer, the
  block index and the block (its \<open>entryIdx\<close> and its entries) as they were. A call of
  \<open>append\<close> with nothing but such entries stores the block it started from, with the topic
  hash of the call, and returns the offset of that block.
\<close>

theorem append_skips_duplicates:
  "((seq we = 0 \<or> seq we \<in> set (map seq (winBlock.entries w))) \<longrightarrow>
      append_entry blockSize n now (wb, winIdx, w) we = Inr (wb, winIdx, w)) \<and>
   ((\<forall>we \<in> set wes. seq we = 0 \<or> seq we \<in> set (map seq (winBlock.entries w))) \<longrightarrow>
      append_entries blockSize n clock j (wb, winIdx, w) wes = Inr (wb, winIdx, w)) \<and>
   (off \<noteq> 0 \<and> winBlocks wb (word_of_int (sint off sdiv sint (ucast blockSize :: i64))) = Some w \<and>
    (\<forall>we \<in> set wes. seq we = 0 \<or> seq we \<in> set (map seq (winBlock.entries w))) \<longrightarrow>
      append blockSize n clock wb th off wes =
        Inr (blockOffset blockSize (word_of_int (sint off sdiv sint (ucast blockSize :: i64))),
             wb\<lparr>winBlocks := (winBlocks wb)
                   (word_of_int (sint off sdiv sint (ucast blockSize :: i64)) \<mapsto> w\<lparr>topicHash := th\<rparr>)\<rparr>))"
proof -
  have 3: "append blockSize n clock wb th off wes =
        Inr (blockOffset blockSize (word_of_int (sint off sdiv sint (ucast blockSize :: i64))),
             wb\<lparr>winBlocks := (winBlocks wb)
                   (word_of_int (sint off sdiv sint (ucast blockSize :: i64)) \<mapsto> w\<lparr>topicHash := th\<rparr>)\<rparr>)"
    if "off \<noteq> 0" "winBlocks wb (word_of_int (sint off sdiv sint (ucast blockSize :: i64))) = Some w"
      "\<forall>we \<in> set wes. seq we = 0 \<or> seq we \<in> set (map seq (winBlock.entries w))"
  proof -
    from that(3) have "\<forall>we \<in> set wes. seq we = 0 \<or>
        seq we \<in> set (map seq (winBlock.entries (w\<lparr>topicHash := th\<rparr>)))" by simp
    from append_entries_skip [OF this] append_start_cached [OF that(1,2)]
    show ?thesis by (simp add: append_def)
  qed
  from append_entry_skip [of we w blockSize n now wb winIdx]
    append_entries_skip [of wes w blockSize n clock j wb winIdx] 3
  show ?thesis by blast
qed

theorem append_skips_duplicates_witness:
  "append_entry 62 3 1000 (writer1, 1, block2) \<lparr>seq = 2, expiresAt = 77\<rparr> = Inr (writer1, 1, block2) \<and>
   append 62 3 (\<lambda>j. 1000) writer1 7 62 [\<lparr>seq = 2, expiresAt = 77\<rparr>, \<lparr>seq = 0, expiresAt = 0\<rparr>]
     = Inr (blockOffset 62 1, writer1\<lparr>winBlocks := (winBlocks writer1)(1 \<mapsto> block2\<lparr>topicHash := 7\<rparr>)\<rparr>)"
  using append_skips_duplicates [where we = "\<lparr>seq = 2, expiresAt = 77\<rparr>" and w = block2
      and blockSize = 62 and n = 3 and now = 1000 and wb = writer1 and winIdx = 1
      and wes = "[\<lparr>seq = 2, expiresAt = 77\<rparr>, \<lparr>seq = 0, expiresAt = 0\<rparr>]"
      and clock = "\<lambda>j. 1000" and j = 0 and off = 62 and th = 7]
  by (simp add: idx62 block2_def writer1_def)

section \<open>\<open>lookup\<close> along the chain of blocks\<close>

lemma read_fileN:
  assumes "12 * n + 26 \<le> unat blockSize" "3 \<le> n"
  shows "read (fileN blockSize n) blockSize n (ucast blockSize) = Inr (blockN n)"
proof -
  have l: "length (winBlock.entries (zero_winBlock n)) = length (winBlock.entries (blockN n))"
    using assms(2) by (simp add: zero_winBlock_def blockN_def)
  have s: "12 * length (winBlock.entries (blockN n)) + 26 \<le> unat blockSize"
    using assms by (simp add: blockN_def)
  from winBlock_roundtrip [OF l s] obtain b where
    b: "winBlock_MarshalBinary blockSize (blockN n) = Some b"
    "winBlock_UnmarshalBinary (zero_winBlock n) b
       = Some ((blockN n)\<lparr>dirty := dirty (zero_winBlock n), leased := leased (zero_winBlock n)\<rparr>)"
    by blast
  have "(blockN n)\<lparr>dirty := dirty (zero_winBlock n), leased := leased (zero_winBlock n)\<rparr> = blockN n"
    by (simp add: zero_winBlock_def blockN_def)
  with b show ?thesis
    by (simp add: read_def fileN_def)
qed

lemma ilookup_tw0: "ilookup now tw0 h limit = Inr []"
  by (simp add: ilookup_def ilookup_frozen_def ilookup_entries_def tw0_def)

lemma lookup_block_blockN:
  "lookup_block 100 7 0 ([], 2) (blockN n) =
     Inr (False, [\<lparr>seq = 2, expiresAt = 0\<rparr>, \<lparr>seq = 1, expiresAt = 0\<rparr>, \<lparr>seq = 2, expiresAt = 0\<rparr>], 2)"
  by (simp add: lookup_block_def blockN_def slice_def isExpired_def Cutoff_def)

text \<open>
  Claim C7, at an input where the code departs from it. The shard holds nothing for topic
  hash 7; the block at the offset carries the entries with \<open>seq\<close> 1, 2 and 3 for that hash,
  the newest of them expired, and ends the chain. With \<open>limit = 2\<close> the callback takes the
  newest two slots, of which one entry is live, finds fewer entries than the limit it has
  just lowered, and then appends all live entries of the block again: \<open>lookup\<close> returns three
  entries, the one with \<open>seq\<close> 2 twice. This holds for every array size from 3 and every
  block size that holds the array.
\<close>

theorem lookup_exceeds_limit:
  assumes "12 * n + 26 \<le> unat blockSize" "3 \<le> n"
  shows "lookup 1 (fileN blockSize n) blockSize n 100 tw0 7 (ucast blockSize) 0 2 =
     Some (Inr [\<lparr>seq = 2, expiresAt = 0\<rparr>, \<lparr>seq = 1, expiresAt = 0\<rparr>, \<lparr>seq = 2, expiresAt = 0\<rparr>])"
proof -
  have "next (blockN n) = 0" by (simp add: blockN_def)
  then show ?thesis
    by (simp add: lookup_def ilookup_tw0 read_fileN [OF assms] lookup_block_blockN)
qed

theorem lookup_exceeds_limit_witness:
  "lookup 1 (fileN 4096 335) 4096 335 100 tw0 7 4096 0 2 =
     Some (Inr [\<lparr>seq = 2, expiresAt = 0\<rparr>, \<lparr>seq = 1, expiresAt = 0\<rparr>, \<lparr>seq = 2, expiresAt = 0\<rparr>])"
  using lookup_exceeds_limit [of 335 4096] by simp

section \<open>The sync coordinator\<close>

text \<open>
  Claim C3. When \<open>lastSyncSeq\<close> equals the DB's current sequence, as after a \<open>Sync\<close> that
  was followed by no new entry, \<open>Sync\<close> returns nil without running the pipeline, so nothing
  is written to the window, index or data files: the DB, \<open>lastSyncSeq\<close>, \<open>upperSeq\<close> and the
  writers are unchanged, and of the handle only the flag \<open>syncStatusOk\<close> is cleared. A
  \<open>startSync\<close> that does start sets \<open>lastSyncSeq\<close> to the sequence it saw.
\<close>

theorem Sync_twice_noop:
  "(lastSyncSeq h = Seq (DB h) \<longrightarrow>
      startSync Seq prepare h = (False, h\<lparr>syncStatusOk := False\<rparr>) \<and>
      Sync Seq prepare release pipeline h = Inr (h\<lparr>syncStatusOk := False\<rparr>) \<and>
      (\<exists>h'. Sync Seq prepare release pipeline h = Inr h' \<and> DB h' = DB h \<and>
         lastSyncSeq h' = lastSyncSeq h \<and> upperSeq h' = upperSeq h \<and> writers h' = writers h)) \<and>
   (lastSyncSeq h \<noteq> Seq (DB h) \<longrightarrow>
      fst (startSync Seq prepare h) \<and> lastSyncSeq (snd (startSync Seq prepare h)) = Seq (DB h))"
  by (simp add: Sync_def startSync_def split_beta)

theorem Sync_twice_noop_witness:
  "Sync (\<lambda>d. d) (\<lambda>d. ((), d)) (\<lambda>w d. d) (\<lambda>h. None) handle1 = Inr (handle1\<lparr>syncStatusOk := False\<rparr>)"
  using Sync_twice_noop [of handle1 "\<lambda>d. d" "\<lambda>d. ((), d)" "\<lambda>w d. d" "\<lambda>h. None"]
  by (simp add: handle1_def)

end
